theory Spec2Isabelle
  imports Complex_Main "HOL-Library.Word" "HOL-Library.Log_Nat"
begin

section \<open>The speech recognition session core (ServiceRecognizerBase)\<close>

text \<open>
  The source is one TypeScript class, \<^verbatim>\<open>ServiceRecognizerBase\<close>, written against a
  home-made promise library.  Its methods are short synchronous pieces glued together by
  callbacks.  The embedding keeps that shape: the mutable fields of the class are a record,
  every callback of the source is a function on that record, a callback that waits for a
  future is a value of the datatype \<open>cont\<close> stored in the record, and everything the class
  does to its collaborators (the transport, the authentication, the audio source, the
  recognizer's event handlers, the subclass hooks) is appended to one chronological log.

  Numbers: byte counts and counters are naturals, tick offsets are integers, and the
  quantities the source computes with \<^verbatim>\<open>/\<close> (the byte budget, the send times) are
  doubles: they are the rationals a double can hold, and every arithmetic operation of the
  source is the exact operation followed by the rounding \<open>fl\<close> of IEEE 754.
\<close>

subsection \<open>Strings and numbers of the host language\<close>

definition toLowerCase :: "string \<Rightarrow> string" where
  "toLowerCase t =
     map (\<lambda>c. let n = (of_char c :: nat) in if 65 \<le> n \<and> n \<le> 90 then char_of (n + 32) else c) t"

definition digitChar :: "nat \<Rightarrow> char" where
  "digitChar d = char_of (48 + d)"

text \<open>Decimal rendering of a number inside a template string.\<close>

fun toString :: "nat \<Rightarrow> string" where
  "toString n = (if n < 10 then [digitChar n] else toString (n div 10) @ [digitChar (n mod 10)])"

declare toString.simps [simp del]

definition isDigit :: "char \<Rightarrow> bool" where
  "isDigit c = (let n = (of_char c :: nat) in 48 \<le> n \<and> n \<le> 57)"

definition isSpace :: "char \<Rightarrow> bool" where
  "isSpace c = (let n = (of_char c :: nat) in n = 32 \<or> (9 \<le> n \<and> n \<le> 13))"

text \<open>
  \<^verbatim>\<open>parseInt(t, 10)\<close>: leading white space is skipped, a sign is read, and the longest
  run of decimal digits that follows is the value; with no digit the result is NaN, which
  is \<open>None\<close> here.
\<close>

definition parseInt :: "string \<Rightarrow> int option" where
  "parseInt t =
     (let u = dropWhile isSpace t;
          neg = (case u of [] \<Rightarrow> False | c # _ \<Rightarrow> c = CHR ''-'');
          v = (case u of [] \<Rightarrow> [] | c # r \<Rightarrow> if c = CHR ''-'' \<or> c = CHR ''+'' then r else u);
          ds = takeWhile isDigit v;
          n = foldl (\<lambda>a c. 10 * a + (int (of_char c) - 48)) 0 ds
      in if ds = [] then None else Some (if neg then - n else n))"

text \<open>
  The numbers of the host language are IEEE 754 doubles, and the result of an arithmetic
  operation is the exact result rounded to the nearest double, a tie going to the even
  significand.  \<open>exponent x\<close> is the integer \<open>e\<close> with \<open>2 ^ e \<le> x < 2 ^ (e + 1)\<close>, for positive
  \<open>x\<close>; a double has a significand of 53 bits, so the doubles around \<open>x\<close> are the multiples
  of \<open>2 ^ (e - 52)\<close>, and of \<open>2 ^ -1074\<close> below the normal range.  A result of magnitude
  \<open>2 ^ 1024\<close> or more is \<^verbatim>\<open>Infinity\<close> in the source and outside of this model, as are the
  sign of zero and a division by zero.
\<close>

definition roundEven :: "rat \<Rightarrow> int" where
  "roundEven y =
     (let f = \<lfloor>y\<rfloor>; r = y - of_int f
      in if r < 1 / 2 then f else if 1 / 2 < r then f + 1 else if even f then f else f + 1)"

definition pow2 :: "int \<Rightarrow> rat" where
  "pow2 t = (if 0 \<le> t then 2 ^ nat t else 1 / 2 ^ nat (- t))"

definition exponent :: "rat \<Rightarrow> int" where
  "exponent x = (if 1 \<le> x then bitlen \<lfloor>x\<rfloor> - 1 else - bitlen (\<lceil>1 / x\<rceil> - 1))"

definition fl :: "rat \<Rightarrow> rat" where
  "fl x =
     (if x = 0 then 0
      else (let a = \<bar>x\<bar>; t = max (exponent a - 52) (- 1074);
                m = of_int (roundEven (a / pow2 t)) * pow2 t
            in if x < 0 then - m else m))"

text \<open>
  Modelled from the spec: \<^verbatim>\<open>createNoDashGuid\<close> is imported from the common library, which
  is not part of the sources.  The spec says every minted id is 32 lower-case hexadecimal
  characters and fresh; the model numbers them.
\<close>

fun hex :: "nat \<Rightarrow> nat \<Rightarrow> string" where
  "hex 0 n = []"
| "hex (Suc k) n = hex k (n div 16) @ [''0123456789abcdef'' ! (n mod 16)]"

definition createNoDashGuid :: "nat \<Rightarrow> string" where
  "createNoDashGuid n = hex 32 n"

subsection \<open>Messages and the transport\<close>

datatype ConnectionState = StateNone | Connecting | Connected | Disconnected

datatype MessageType = Text | Binary

type_synonym ArrayBuffer = "8 word list"

datatype payload = NullBody | TextBody string | BinaryBody ArrayBuffer

text \<open>
  \<^verbatim>\<open>new SpeechConnectionMessage(messageType, path, requestId, contentType, body)\<close>;
  a connection is known by its connection id.
\<close>

datatype SpeechConnectionMessage =
  SpeechConnectionMessage
    (messageType: MessageType) (path: string) (msgRequestId: string)
    (contentType: "string option") (body: payload)

definition textBody :: "SpeechConnectionMessage \<Rightarrow> string" where
  "textBody m = (case body m of TextBody t \<Rightarrow> t | _ \<Rightarrow> [])"

definition byteLength :: "ArrayBuffer \<Rightarrow> nat" where
  "byteLength b = length b"

datatype RecognitionMode = Interactive | Conversation | Dictation

datatype CancellationReason = Error | EndOfStream

datatype CancellationErrorCode = NoError | ConnectionFailure | RuntimeError

text \<open>What a future can complete with.\<close>

datatype outcome =
    Failed string
  | Conn string
  | AuthInfo string
  | OpenResponse nat string
  | Sent
  | Message "SpeechConnectionMessage option"
  | Chunk ArrayBuffer bool
  | Tick
  | Attached

text \<open>Everything the core does to its collaborators, in the order it does it.\<close>

datatype action =
    Fetch string
  | FetchOnExpiry string
  | Create string
  | Open string
  | Send nat string SpeechConnectionMessage
  | SendDone nat bool
  | Read string
  | AudioRead
  | SetTimeout rat
  | Attach
  | TurnOff
  | Dispose string "string option"
  | sessionStarted string
  | sessionStopped string
  | speechStartDetected int string
  | speechEndDetected int string
  | cancelRecognition string string CancellationReason CancellationErrorCode "string option"
  | processTypeSpecificMessages SpeechConnectionMessage
  | ServiceRecognized int
  | audioSendPromise "string + bool"

subsection \<open>RequestSession\<close>

text \<open>
  Modelled from the spec: the class \<^verbatim>\<open>RequestSession\<close> is imported from
  \<^verbatim>\<open>./Exports\<close> and is not part of the sources.  Its fields and operations follow
  sections 3 and 4.3 of the spec.  The telemetry accumulator keeps the names of the
  recorded phases.
\<close>

record RequestSession =
  sessionId :: string
  requestId :: string
  recogNumber :: nat
  bytesSent :: nat
  currentTurnAudioOffset :: int
  isRecognizing :: bool
  isSpeechEnded :: bool
  telemetry :: "string list"

definition newRequestSession :: "string \<Rightarrow> string \<Rightarrow> RequestSession" where
  "newRequestSession sid rid =
     \<lparr>sessionId = sid, requestId = rid, recogNumber = 0, bytesSent = 0,
      currentTurnAudioOffset = 0, isRecognizing = False, isSpeechEnded = False,
      telemetry = []\<rparr>"

definition startNewRecognition :: "string \<Rightarrow> string \<Rightarrow> RequestSession \<Rightarrow> RequestSession" where
  "startNewRecognition sid rid r =
     r\<lparr>sessionId := sid, requestId := rid, recogNumber := Suc (recogNumber r), bytesSent := 0,
       currentTurnAudioOffset := 0, isRecognizing := True, isSpeechEnded := False\<rparr>"

definition record_phase :: "string \<Rightarrow> RequestSession \<Rightarrow> RequestSession" where
  "record_phase n r = r\<lparr>telemetry := telemetry r @ [n]\<rparr>"

definition onPreConnectionStart :: "string option \<Rightarrow> string option \<Rightarrow> RequestSession \<Rightarrow> RequestSession" where
  "onPreConnectionStart authFetchEventId connectionId r = record_phase ''PreConnectionStart'' r"

definition onAuthCompleted :: "bool \<Rightarrow> RequestSession \<Rightarrow> RequestSession" where
  "onAuthCompleted isError r = record_phase ''AuthCompleted'' r"

definition onConnectionEstablishCompleted :: "nat \<Rightarrow> RequestSession \<Rightarrow> RequestSession" where
  "onConnectionEstablishCompleted statusCode r = record_phase ''ConnectionEstablishCompleted'' r"

definition onAudioSourceAttachCompleted :: "RequestSession \<Rightarrow> RequestSession" where
  "onAudioSourceAttachCompleted r = record_phase ''AudioSourceAttachCompleted'' r"

definition onAudioSent :: "nat \<Rightarrow> RequestSession \<Rightarrow> RequestSession" where
  "onAudioSent n r = r\<lparr>bytesSent := bytesSent r + n\<rparr>"

definition onServiceRecognized :: "int \<Rightarrow> RequestSession \<Rightarrow> RequestSession" where
  "onServiceRecognized offsetTicks r =
     r\<lparr>currentTurnAudioOffset := currentTurnAudioOffset r + offsetTicks\<rparr>"

definition onServiceTurnEndResponse :: "bool \<Rightarrow> string \<Rightarrow> RequestSession \<Rightarrow> RequestSession" where
  "onServiceTurnEndResponse isContinuous rid r =
     (if isContinuous \<and> \<not> isSpeechEnded r then r\<lparr>requestId := rid, bytesSent := 0\<rparr>
      else r\<lparr>isRecognizing := False\<rparr>)"

definition onSpeechEnded :: "RequestSession \<Rightarrow> RequestSession" where
  "onSpeechEnded r = r\<lparr>isSpeechEnded := True\<rparr>"

definition onStopRecognizing :: "RequestSession \<Rightarrow> RequestSession" where
  "onStopRecognizing r = r\<lparr>isRecognizing := False\<rparr>"

definition sessionDispose :: "RequestSession \<Rightarrow> RequestSession" where
  "sessionDispose r = r\<lparr>isRecognizing := False\<rparr>"

definition getTelemetry :: "RequestSession \<Rightarrow> string option \<times> RequestSession" where
  "getTelemetry r =
     (if telemetry r = [] then (None, r) else (Some (concat (telemetry r)), r\<lparr>telemetry := []\<rparr>))"

subsection \<open>The state of the core\<close>

text \<open>
  What the core reads from its collaborators and never writes: the static switch
  \<^verbatim>\<open>telemetryDataEnabled\<close>, the serialized speech configuration (and what is left of it
  when telemetry is filtered out, the result of \<^verbatim>\<open>JSON.stringify\<close>), the speech context,
  the property collection of the recognizer configuration, the audio format's byte rate,
  whether the audio device is of type Microphones, the parser \<^verbatim>\<open>SpeechDetected.fromJSON\<close>
  (\<open>None\<close> when it throws, otherwise the \<^verbatim>\<open>Offset\<close> of the parsed document), and which event
  handlers the recognizer has installed.  These come from classes that are not part of
  the sources, so they are parameters.
\<close>

record collaborators =
  telemetryDataEnabled :: bool
  SpeechServiceConfigJson :: string
  systemOnlyConfigJson :: string
  speechContextJson :: string
  parameters :: "(string \<times> string) list"
  avgBytesPerSec :: nat
  isMicrophones :: bool
  SpeechDetected_fromJSON :: "string \<Rightarrow> int option"
  hasSessionStarted :: bool
  hasSessionStopped :: bool
  hasSpeechStartDetected :: bool
  hasSpeechEndDetected :: bool

definition getProperty :: "(string \<times> string) list \<Rightarrow> string \<Rightarrow> string option \<Rightarrow> string option" where
  "getProperty ps key def = (case map_of ps key of Some v \<Rightarrow> Some v | None \<Rightarrow> def)"

text \<open>The variables the closure \<^verbatim>\<open>readAndUploadCycle\<close> of one call of \<^verbatim>\<open>sendAudio\<close> shares.\<close>

record pump =
  deferred :: "(string + bool) option"
  nextSendTime :: rat
  maxSendUnthrottledBytes :: "rat option"
  startRecogNumber :: nat

text \<open>
  The callbacks of the source, one constructor for each place where the source hands a
  function to a promise or a timer, with the variables the function has captured.
\<close>

datatype cont =
    KAttach
  | KAuth nat bool
  | KOpen nat bool string
  | KFollow nat
  | KConfigure nat
  | KConfigSent nat string
  | KContextSent nat string
  | KDispose "string option"
  | KRecognize
  | KRead
  | KMessage
  | KCycle pump
  | KChunk pump string
  | KTimer pump nat
  | KUploaded pump
  | KTelemetry string
  | KSpeechContext
  | KFinalAudio

text \<open>
  The private fields of the class, then the run-time around it: the next id to mint, the
  clock \<^verbatim>\<open>Date.now()\<close>, the promises of a connection the core makes (numbered; \<open>settled\<close>
  gives the result of a completed one, \<open>waiting\<close> the callbacks put on a pending one), the
  promises of a configured connection it makes (\<open>configured\<close> and \<open>configuredWaiting\<close>),
  the futures its collaborators hand out (\<open>completed\<close> and \<open>callbacks\<close>), the state the
  transport reports for each connection, and the log.
\<close>

record core =
  privRequestSession :: RequestSession
  privIsDisposed :: bool
  privMustReportEndOfStream :: bool
  privConnectionPromise :: "nat option"
  privConnectionConfigurationPromise :: "nat option"
  privConnectionId :: "string option"
  privAuthFetchEventId :: "string option"
  privSpeechServiceConfigConnectionId :: "string option"
  recognitionMode :: RecognitionMode
  guids :: nat
  now :: rat
  nextPromise :: nat
  settled :: "nat \<Rightarrow> outcome option"
  waiting :: "(nat \<times> cont) list"
  nextConfigured :: nat
  configured :: "nat \<Rightarrow> outcome option"
  configuredWaiting :: "(nat \<times> cont) list"
  nextFuture :: nat
  completed :: "nat \<Rightarrow> outcome option"
  callbacks :: "(nat \<times> cont) list"
  connectionState :: "string \<Rightarrow> ConnectionState"
  trace :: "action list"

definition emit :: "action \<Rightarrow> core \<Rightarrow> core" where
  "emit a s = s\<lparr>trace := trace s @ [a]\<rparr>"

definition await :: "nat \<Rightarrow> cont \<Rightarrow> core \<Rightarrow> core" where
  "await f k s = s\<lparr>callbacks := callbacks s @ [(f, k)]\<rparr>"

definition newFuture :: "core \<Rightarrow> nat \<times> core" where
  "newFuture s = (nextFuture s, s\<lparr>nextFuture := Suc (nextFuture s)\<rparr>)"

definition wait :: "nat \<Rightarrow> cont \<Rightarrow> core \<Rightarrow> core" where
  "wait p k s = s\<lparr>waiting := waiting s @ [(p, k)]\<rparr>"

definition newPromise :: "core \<Rightarrow> nat \<times> core" where
  "newPromise s = (nextPromise s, s\<lparr>nextPromise := Suc (nextPromise s)\<rparr>)"

definition settle :: "nat \<Rightarrow> outcome \<Rightarrow> core \<Rightarrow> core" where
  "settle f v s = s\<lparr>settled := (settled s)(f \<mapsto> v)\<rparr>"

definition waitConfigured :: "nat \<Rightarrow> cont \<Rightarrow> core \<Rightarrow> core" where
  "waitConfigured q k s = s\<lparr>configuredWaiting := configuredWaiting s @ [(q, k)]\<rparr>"

definition newConfigured :: "core \<Rightarrow> nat \<times> core" where
  "newConfigured s = (nextConfigured s, s\<lparr>nextConfigured := Suc (nextConfigured s)\<rparr>)"

definition settleConfigured :: "nat \<Rightarrow> outcome \<Rightarrow> core \<Rightarrow> core" where
  "settleConfigured q v s = s\<lparr>configured := (configured s)(q \<mapsto> v)\<rparr>"

definition session :: "(RequestSession \<Rightarrow> RequestSession) \<Rightarrow> core \<Rightarrow> core" where
  "session g s = s\<lparr>privRequestSession := g (privRequestSession s)\<rparr>"

text \<open>\<^verbatim>\<open>connection.send(message)\<close>: the message is handed to the transport, which answers later.\<close>

definition send :: "string \<Rightarrow> SpeechConnectionMessage \<Rightarrow> core \<Rightarrow> nat \<times> core" where
  "send connection m s =
     (nextFuture s, s\<lparr>nextFuture := Suc (nextFuture s), trace := trace s @ [Send (nextFuture s) connection m]\<rparr>)"

text \<open>
  Modelled from the spec: \<^verbatim>\<open>isContinuousRecognition\<close> belongs to \<^verbatim>\<open>RecognizerConfig\<close>, which
  is not part of the sources; the interactive mode is the single-shot one.
\<close>

definition isContinuousRecognition :: "core \<Rightarrow> bool" where
  "isContinuousRecognition s = (recognitionMode s \<noteq> Interactive)"

text \<open>
  The constructor.  The session is made with it; the two promises are still undefined.
\<close>

definition newServiceRecognizerBase :: core where
  "newServiceRecognizerBase =
     \<lparr>privRequestSession = newRequestSession (createNoDashGuid 0) (createNoDashGuid 1),
      privIsDisposed = False, privMustReportEndOfStream = False,
      privConnectionPromise = None, privConnectionConfigurationPromise = None,
      privConnectionId = None, privAuthFetchEventId = None,
      privSpeechServiceConfigConnectionId = None, recognitionMode = Interactive,
      guids = 2, now = 0, nextPromise = 0, settled = (\<lambda>p. None), waiting = [],
      nextConfigured = 0, configured = (\<lambda>q. None), configuredWaiting = [],
      nextFuture = 0, completed = (\<lambda>f. None), callbacks = [],
      connectionState = (\<lambda>c. StateNone), trace = []\<rparr>"

subsection \<open>connectImpl\<close>

text \<open>
  \<^verbatim>\<open>promise.result().isCompleted && (promise.result().isError ||
  promise.result().result.state() === ConnectionState.Disconnected)\<close>
\<close>

definition completedUnusable :: "core \<Rightarrow> nat \<Rightarrow> bool" where
  "completedUnusable s p =
     (case settled s p of
        Some (Failed e) \<Rightarrow> True
      | Some (Conn c) \<Rightarrow> connectionState s c = Disconnected
      | _ \<Rightarrow> False)"

text \<open>The same test, as \<^verbatim>\<open>configureConnection\<close> makes it of the promise it has stored.\<close>

definition configuredUnusable :: "core \<Rightarrow> nat \<Rightarrow> bool" where
  "configuredUnusable s q =
     (case configured s q of
        Some (Failed e) \<Rightarrow> True
      | Some (Conn c) \<Rightarrow> connectionState s c = Disconnected
      | _ \<Rightarrow> False)"

text \<open>
  The part of \<^verbatim>\<open>connectImpl\<close> below the test of the stored promise: two ids are minted, the
  authentication is asked (\<^verbatim>\<open>fetchOnExpiry\<close> when \<open>isUnAuthorized\<close>), and the promise that
  the chain of continuations returns is stored.  Awaiting the authentication is a suspension
  point (section 5 of the spec), so the continuation runs in a later step, when the stored
  promise has been assigned.
\<close>

definition connectAttempt :: "bool \<Rightarrow> core \<Rightarrow> nat \<times> core" where
  "connectAttempt isUnAuthorized s =
     (let a = createNoDashGuid (guids s);
          c = createNoDashGuid (Suc (guids s));
          s1 = session (onPreConnectionStart (Some a) (Some c))
                 (s\<lparr>guids := guids s + 2, privAuthFetchEventId := Some a, privConnectionId := Some c\<rparr>);
          s2 = emit (if isUnAuthorized then FetchOnExpiry a else Fetch a) s1;
          (authPromise, s3) = newFuture s2;
          (p, s4) = newPromise s3
      in (p, (await authPromise (KAuth p isUnAuthorized) s4)\<lparr>privConnectionPromise := Some p\<rparr>))"

text \<open>
  The recursive call \<^verbatim>\<open>this.connectImpl()\<close> of the first branch finds the stored promise
  null, so it is the attempt itself, with the default \<open>isUnAuthorized = false\<close>.
\<close>

definition connectImpl :: "bool \<Rightarrow> core \<Rightarrow> nat \<times> core" where
  "connectImpl isUnAuthorized s =
     (case privConnectionPromise s of
        Some p \<Rightarrow>
          if completedUnusable s p
          then connectAttempt False (s\<lparr>privConnectionId := None, privConnectionPromise := None\<rparr>)
          else (p, s)
      | None \<Rightarrow> connectAttempt isUnAuthorized s)"

subsection \<open>configureConnection\<close>

definition sendSpeechServiceConfig :: "collaborators \<Rightarrow> string \<Rightarrow> core \<Rightarrow> nat option \<times> core" where
  "sendSpeechServiceConfig E connection s =
     (let json = (if telemetryDataEnabled E then SpeechServiceConfigJson E else systemOnlyConfigJson E)
      in if json \<noteq> [] then
           (let s1 = s\<lparr>privSpeechServiceConfigConnectionId := privConnectionId s\<rparr>;
                (f, s2) = send connection
                   (SpeechConnectionMessage Text ''speech.config'' (requestId (privRequestSession s1))
                      (Some ''application/json'') (TextBody json)) s1
            in (Some f, s2))
         else (None, s))"

definition sendSpeechContext :: "collaborators \<Rightarrow> string \<Rightarrow> core \<Rightarrow> nat option \<times> core" where
  "sendSpeechContext E connection s =
     (if speechContextJson E \<noteq> [] then
        (let (f, s1) = send connection
                (SpeechConnectionMessage Text ''speech.context'' (requestId (privRequestSession s))
                   (Some ''application/json'') (TextBody (speechContextJson E))) s
         in (Some f, s1))
      else (None, s))"

text \<open>
  The chain inside \<^verbatim>\<open>configureConnection\<close>: the configuration is sent; when its send
  future has resolved the context is sent; when that has resolved the promise \<open>q\<close> resolves
  with the connection.  A send that is skipped is \<^verbatim>\<open>PromiseHelper.fromResult(true)\<close>, whose
  continuation runs at once.  \<open>resolve\<close> is what completing \<open>q\<close> does.
\<close>

definition contextStep ::
  "(nat \<Rightarrow> string \<Rightarrow> core \<Rightarrow> core) \<Rightarrow> collaborators \<Rightarrow> nat \<Rightarrow> string \<Rightarrow> core \<Rightarrow> core" where
  "contextStep resolve E q connection s =
     (case sendSpeechContext E connection s of
        (Some f, s1) \<Rightarrow> await f (KContextSent q connection) s1
      | (None, s1) \<Rightarrow> resolve q connection s1)"

definition configStep ::
  "(nat \<Rightarrow> string \<Rightarrow> core \<Rightarrow> core) \<Rightarrow> collaborators \<Rightarrow> nat \<Rightarrow> string \<Rightarrow> core \<Rightarrow> core" where
  "configStep resolve E q connection s =
     (case sendSpeechServiceConfig E connection s of
        (Some f, s1) \<Rightarrow> await f (KConfigSent q connection) s1
      | (None, s1) \<Rightarrow> contextStep resolve E q connection s1)"

text \<open>
  Below the test of the stored promise: \<^verbatim>\<open>this.connectImpl().onSuccessContinueWithPromise(...)\<close>.
  When the connection promise is already resolved the chain starts at once; the promise
  \<open>q\<close> it may resolve is the one being made, which nothing waits for yet.
\<close>

definition configureAttempt :: "collaborators \<Rightarrow> core \<Rightarrow> nat \<times> core" where
  "configureAttempt E s =
     (let (p, s1) = connectImpl False s;
          (q, s2) = newConfigured s1;
          s3 = (case settled s2 p of
                  None \<Rightarrow> wait p (KConfigure q) s2
                | Some (Conn c) \<Rightarrow> configStep (\<lambda>q c. settleConfigured q (Conn c)) E q c s2
                | Some (Failed e) \<Rightarrow> settleConfigured q (Failed e) s2
                | Some _ \<Rightarrow> s2)
      in (q, s3\<lparr>privConnectionConfigurationPromise := Some q\<rparr>))"

definition configureConnection :: "collaborators \<Rightarrow> core \<Rightarrow> nat \<times> core" where
  "configureConnection E s =
     (case privConnectionConfigurationPromise s of
        Some q \<Rightarrow>
          if configuredUnusable s q
          then configureAttempt E (s\<lparr>privConnectionConfigurationPromise := None\<rparr>)
          else (q, s)
      | None \<Rightarrow> configureAttempt E s)"

definition fetchConnection :: "collaborators \<Rightarrow> core \<Rightarrow> nat \<times> core" where
  "fetchConnection E s = configureConnection E s"

text \<open>
  \<^verbatim>\<open>promise.onSuccessContinueWith(k)\<close> and \<^verbatim>\<open>promise.on(k, e)\<close> on a promise of a connection:
  the callback runs at once when the promise is already completed, and waits otherwise.
  \<open>k\<close> names the callback, \<open>run\<close> is its body.
\<close>

definition onSuccessContinueWith :: "nat \<Rightarrow> cont \<Rightarrow> (string \<Rightarrow> core \<Rightarrow> core) \<Rightarrow> core \<Rightarrow> core" where
  "onSuccessContinueWith q k run s =
     (case configured s q of
        None \<Rightarrow> waitConfigured q k s
      | Some (Conn c) \<Rightarrow> run c s
      | Some _ \<Rightarrow> s)"

subsection \<open>Telemetry and local cancellation\<close>

definition telemetryMessage :: "string \<Rightarrow> string \<Rightarrow> core \<Rightarrow> core" where
  "telemetryMessage telemetryData connection s =
     snd (send connection
            (SpeechConnectionMessage Text ''telemetry'' (requestId (privRequestSession s))
               (Some ''application/json'') (TextBody telemetryData)) s)"

text \<open>
  The static test hook \<^verbatim>\<open>ServiceRecognizerBase.telemetryData\<close>, called between the test and
  the send, touches nothing of the core and is left out.
\<close>

definition sendTelemetryData :: "collaborators \<Rightarrow> core \<Rightarrow> core" where
  "sendTelemetryData E s =
     (let (t, r) = getTelemetry (privRequestSession s);
          s1 = s\<lparr>privRequestSession := r\<rparr>
      in case t of
           None \<Rightarrow> s1
         | Some telemetryData \<Rightarrow>
             if privIsDisposed s1 \<or> \<not> telemetryDataEnabled E then s1
             else (let (q, s2) = fetchConnection E s1
                   in onSuccessContinueWith q (KTelemetry telemetryData)
                        (telemetryMessage telemetryData) s2))"

text \<open>\<^verbatim>\<open>cancelRecognition\<close> is abstract; the call is logged with its arguments.\<close>

definition cancelRecognitionLocal ::
  "collaborators \<Rightarrow> CancellationReason \<Rightarrow> CancellationErrorCode \<Rightarrow> string option \<Rightarrow> core \<Rightarrow> core" where
  "cancelRecognitionLocal E cancellationReason errorCode error s =
     (if isRecognizing (privRequestSession s) then
        (let s1 = session onStopRecognizing s;
             s2 = sendTelemetryData E s1
         in emit (cancelRecognition (sessionId (privRequestSession s2)) (requestId (privRequestSession s2))
                    cancellationReason errorCode error) s2)
      else s)"

subsection \<open>The receive loop\<close>

definition connectionRead :: "string \<Rightarrow> core \<Rightarrow> core" where
  "connectionRead connection s =
     (let (f, s1) = newFuture (emit (Read connection) s) in await f KMessage s1)"

definition receiveMessage :: "collaborators \<Rightarrow> core \<Rightarrow> core" where
  "receiveMessage E s =
     (let (q, s1) = fetchConnection E s in onSuccessContinueWith q KRead connectionRead s1)"

text \<open>
  How the body of the callback leaves the \<^verbatim>\<open>switch\<close>: by \<^verbatim>\<open>return\<close> inside it, by reaching
  the \<^verbatim>\<open>return this.receiveMessage(...)\<close> behind it, or by an exception of the parser.
\<close>

datatype flow = Returned core | Next core | Thrown core

definition onSpeechStartDetected :: "collaborators \<Rightarrow> SpeechConnectionMessage \<Rightarrow> core \<Rightarrow> flow" where
  "onSpeechStartDetected E connectionMessage s =
     (case SpeechDetected_fromJSON E (textBody connectionMessage) of
        None \<Rightarrow> Thrown s
      | Some Offset \<Rightarrow>
          Next (if hasSpeechStartDetected E
                then emit (speechStartDetected Offset (sessionId (privRequestSession s))) s
                else s))"

definition onSpeechEndDetected :: "collaborators \<Rightarrow> SpeechConnectionMessage \<Rightarrow> core \<Rightarrow> flow" where
  "onSpeechEndDetected E connectionMessage s =
     (let json = (if length (textBody connectionMessage) > 0 then textBody connectionMessage
                  else ''{ Offset: 0 }'')
      in case SpeechDetected_fromJSON E json of
           None \<Rightarrow> Thrown s
         | Some Offset \<Rightarrow>
             (let s1 = (if isContinuousRecognition s then
                          (let arg = Offset + currentTurnAudioOffset (privRequestSession s)
                           in session (onServiceRecognized arg) (emit (ServiceRecognized arg) s))
                        else s);
                  s2 = (if hasSpeechEndDetected E then
                          emit (speechEndDetected
                                  (Offset + currentTurnAudioOffset (privRequestSession s1))
                                  (sessionId (privRequestSession s1))) s1
                        else s1)
              in Next s2))"

definition speechContextMessage :: "collaborators \<Rightarrow> string \<Rightarrow> core \<Rightarrow> core" where
  "speechContextMessage E connection s = snd (sendSpeechContext E connection s)"

text \<open>
  The case \<^verbatim>\<open>"turn.end"\<close>.  Its first branch returns; its second branch has no
  \<^verbatim>\<open>break\<close>, so control goes on into \<^verbatim>\<open>default\<close>.
\<close>

definition onTurnEnd :: "collaborators \<Rightarrow> SpeechConnectionMessage \<Rightarrow> core \<Rightarrow> flow" where
  "onTurnEnd E connectionMessage s =
     (let s1 = sendTelemetryData E s;
          s2 = (if isSpeechEnded (privRequestSession s1) \<and> privMustReportEndOfStream s1 then
                  cancelRecognitionLocal E EndOfStream NoError None
                    (s1\<lparr>privMustReportEndOfStream := False\<rparr>)
                else s1);
          sid = sessionId (privRequestSession s2);
          s3 = session (onServiceTurnEndResponse (isContinuousRecognition s2) (createNoDashGuid (guids s2)))
                 (s2\<lparr>guids := Suc (guids s2)\<rparr>)
      in if isSpeechEnded (privRequestSession s3) \<or> \<not> isContinuousRecognition s3 then
           Returned (if hasSessionStopped E then emit (sessionStopped sid) s3 else s3)
         else
           (let (q, s4) = fetchConnection E s3;
                s5 = onSuccessContinueWith q KSpeechContext (speechContextMessage E) s4
            in Next (emit (processTypeSpecificMessages connectionMessage) s5)))"

definition handleMessage :: "collaborators \<Rightarrow> SpeechConnectionMessage \<Rightarrow> core \<Rightarrow> flow" where
  "handleMessage E connectionMessage s =
     (if toLowerCase (msgRequestId connectionMessage) = toLowerCase (requestId (privRequestSession s)) then
        (let p = toLowerCase (path connectionMessage)
         in if p = ''turn.start'' then Next (s\<lparr>privMustReportEndOfStream := True\<rparr>)
            else if p = ''speech.startdetected'' then onSpeechStartDetected E connectionMessage s
            else if p = ''speech.enddetected'' then onSpeechEndDetected E connectionMessage s
            else if p = ''turn.end'' then onTurnEnd E connectionMessage s
            else Next (emit (processTypeSpecificMessages connectionMessage) s))
      else Next s)"

text \<open>
  The continuation of \<^verbatim>\<open>connection.read()\<close>.  A failed read and an exception inside the
  callback end the loop: the promise of the continuation is rejected and nothing reads again.
\<close>

definition onMessage :: "collaborators \<Rightarrow> outcome \<Rightarrow> core \<Rightarrow> core" where
  "onMessage E v s =
     (case v of
        Message message \<Rightarrow>
          if privIsDisposed s \<or> \<not> isRecognizing (privRequestSession s) then s
          else (case message of
                  None \<Rightarrow> if \<not> isRecognizing (privRequestSession s) then s else receiveMessage E s
                | Some m \<Rightarrow>
                    (case handleMessage E m s of
                       Returned s1 \<Rightarrow> s1
                     | Next s1 \<Rightarrow> receiveMessage E s1
                     | Thrown s1 \<Rightarrow> s1))
      | _ \<Rightarrow> s)"

subsection \<open>The upstream pump\<close>

definition fastLaneSizeMs :: "collaborators \<Rightarrow> string option" where
  "fastLaneSizeMs E = getProperty (parameters E) ''SPEECH-TransmitLengthBeforThrottleMs'' (Some ''5000'')"

text \<open>
  \<^verbatim>\<open>audioFormat.avgBytesPerSec / 1000 * parseInt(fastLaneSizeMs, 10)\<close>: the division is
  made first and rounded, then the product is rounded; \<^verbatim>\<open>parseInt\<close> gives the double
  nearest to the integer it reads; NaN is \<open>None\<close>.  The byte rate is a double.
\<close>

definition maxUnthrottled :: "collaborators \<Rightarrow> rat option" where
  "maxUnthrottled E =
     (case fastLaneSizeMs E of
        None \<Rightarrow> None
      | Some t \<Rightarrow>
          (case parseInt t of
             None \<Rightarrow> None
           | Some ms \<Rightarrow> Some (fl (fl (of_nat (avgBytesPerSec E) / 1000) * fl (of_int ms)))))"

definition resolvePump :: "pump \<Rightarrow> core \<Rightarrow> pump \<times> core" where
  "resolvePump pu s = (pu\<lparr>deferred := Some (Inr True)\<rparr>, emit (audioSendPromise (Inr True)) s)"

text \<open>
  \<^verbatim>\<open>deferred.reject(error)\<close>: \<^verbatim>\<open>recognize\<close> has put an error callback on the promise of the
  pump, which cancels the recognition.  (The second callback, behind
  \<^verbatim>\<open>PromiseHelper.whenAll\<close>, makes the same call once the receive loop has completed too.)
\<close>

definition rejectPump :: "collaborators \<Rightarrow> string \<Rightarrow> pump \<Rightarrow> core \<Rightarrow> pump \<times> core" where
  "rejectPump E error pu s =
     (pu\<lparr>deferred := Some (Inl error)\<rparr>,
      cancelRecognitionLocal E Error RuntimeError (Some error) (emit (audioSendPromise (Inl error)) s))"

definition audioStreamNodeRead :: "pump \<Rightarrow> string \<Rightarrow> core \<Rightarrow> core" where
  "audioStreamNodeRead pu connection s =
     (let (f, s1) = newFuture (emit AudioRead s) in await f (KChunk pu connection) s1)"

text \<open>
  One call of \<^verbatim>\<open>readAndUploadCycle\<close>, up to the read it asks of the audio node.  The
  \<^verbatim>\<open>if\<close> at its head has no \<^verbatim>\<open>else\<close>.
\<close>

definition readAndUploadCycle :: "collaborators \<Rightarrow> pump \<Rightarrow> core \<Rightarrow> pump \<times> core" where
  "readAndUploadCycle E pu s =
     (if \<not> privIsDisposed s \<and>
         \<not> isSpeechEnded (privRequestSession s) \<and>
         isRecognizing (privRequestSession s) \<and>
         recogNumber (privRequestSession s) = startRecogNumber pu
      then
        (let (q, s1) = fetchConnection E s
         in case configured s1 q of
              None \<Rightarrow> (pu, waitConfigured q (KCycle pu) s1)
            | Some (Conn c) \<Rightarrow> (pu, audioStreamNodeRead pu c s1)
            | Some (Failed error) \<Rightarrow> rejectPump E error pu s1
            | Some _ \<Rightarrow> (pu, s1))
      else (pu, s))"

definition sendAudio :: "collaborators \<Rightarrow> core \<Rightarrow> pump \<times> core" where
  "sendAudio E s =
     readAndUploadCycle E
       \<lparr>deferred = None, nextSendTime = now s, maxSendUnthrottledBytes = maxUnthrottled E,
        startRecogNumber = recogNumber (privRequestSession s)\<rparr> s"

text \<open>
  \<^verbatim>\<open>maxSendUnthrottledBytes >= bytesSent ? 0 : Math.max(0, nextSendTime - Date.now())\<close>,
  read after \<^verbatim>\<open>onAudioSent\<close>; a comparison with NaN is false.
\<close>

definition sendDelay :: "pump \<Rightarrow> core \<Rightarrow> rat" where
  "sendDelay pu s =
     (if (case maxSendUnthrottledBytes pu of
            None \<Rightarrow> False
          | Some m \<Rightarrow> m \<ge> of_nat (bytesSent (privRequestSession s)))
      then 0
      else max 0 (fl (nextSendTime pu - now s)))"

text \<open>
  The callback of \<^verbatim>\<open>audioStreamNode.read()\<close> for a chunk.  The device information was
  awaited by \<^verbatim>\<open>recognize\<close> before the pump was started, so the continuation behind
  \<^verbatim>\<open>isRealTimeAudioSource\<close> runs at once and both readings of \<^verbatim>\<open>Date.now()\<close> are the same.
  \<^verbatim>\<open>Date.now() + (payload.byteLength * 1000 / (audioFormat.avgBytesPerSec * 2))\<close> is four
  operations, each rounded.  The division agrees with the source for a byte rate that is
  not zero.
\<close>

definition onAudioChunk ::
  "collaborators \<Rightarrow> pump \<Rightarrow> string \<Rightarrow> ArrayBuffer \<Rightarrow> bool \<Rightarrow> core \<Rightarrow> pump \<times> core" where
  "onAudioChunk E pu connection buffer isEnd s =
     (if isSpeechEnded (privRequestSession s) then resolvePump pu s
      else
        (let payload = (if isEnd then NullBody else BinaryBody buffer);
             s1 = (if isEnd then s else session (onAudioSent (byteLength buffer)) s);
             delay = (if isEnd then 0 else sendDelay pu s1);
             pu1 = (if isEnd then pu
                    else pu\<lparr>nextSendTime :=
                              fl (now s1 +
                                  fl (fl (of_nat (byteLength buffer) * 1000) /
                                      fl (of_nat (avgBytesPerSec E) * 2)))\<rparr>);
             (uploaded, s2) = send connection
                (SpeechConnectionMessage Binary ''audio'' (requestId (privRequestSession s1)) None payload) s1
         in if \<not> isEnd then
              (if isMicrophones E then (pu1, await uploaded (KUploaded pu1) s2)
               else (let (t, s3) = newFuture (emit (SetTimeout delay) s2)
                     in (pu1, await t (KTimer pu1 uploaded) s3)))
            else resolvePump pu1 (session onSpeechEnded s2)))"

text \<open>The error callback of \<^verbatim>\<open>audioStreamNode.read()\<close>.\<close>

definition onAudioError :: "collaborators \<Rightarrow> pump \<Rightarrow> string \<Rightarrow> core \<Rightarrow> pump \<times> core" where
  "onAudioError E pu error s =
     (if isSpeechEnded (privRequestSession s) then resolvePump pu s else rejectPump E error pu s)"

text \<open>The timer has fired: \<^verbatim>\<open>uploaded.continueWith(...)\<close>, whatever the upload completed with.\<close>

definition onTimer :: "collaborators \<Rightarrow> pump \<Rightarrow> nat \<Rightarrow> core \<Rightarrow> pump \<times> core" where
  "onTimer E pu uploaded s =
     (case completed s uploaded of
        None \<Rightarrow> (pu, await uploaded (KUploaded pu) s)
      | Some _ \<Rightarrow> readAndUploadCycle E pu s)"

subsection \<open>Completion of the promises of the core\<close>

text \<open>The success callback and the error callback \<^verbatim>\<open>recognize\<close> puts on \<^verbatim>\<open>configureConnection()\<close>.\<close>

definition recognizeStart :: "collaborators \<Rightarrow> core \<Rightarrow> core" where
  "recognizeStart E s =
     (let s1 = (if hasSessionStarted E then emit (sessionStarted (sessionId (privRequestSession s))) s else s);
          s2 = receiveMessage E s1
      in snd (sendAudio E s2))"

definition recognizeFailed :: "collaborators \<Rightarrow> string \<Rightarrow> core \<Rightarrow> core" where
  "recognizeFailed E error s = cancelRecognitionLocal E Error ConnectionFailure (Some error) s"

definition finalAudioMessage :: "string \<Rightarrow> core \<Rightarrow> core" where
  "finalAudioMessage connection s =
     snd (send connection
            (SpeechConnectionMessage Binary ''audio'' (requestId (privRequestSession s)) None NullBody) s)"

definition connectionDispose :: "string option \<Rightarrow> string \<Rightarrow> core \<Rightarrow> core" where
  "connectionDispose reason connection s = emit (Dispose connection reason) s"

text \<open>A callback that waited for the configured connection runs with what the promise completed with.\<close>

definition runConfigured :: "collaborators \<Rightarrow> outcome \<Rightarrow> core \<Rightarrow> cont \<Rightarrow> core" where
  "runConfigured E v s k =
     (case v of
        Conn c \<Rightarrow>
          (case k of
             KRecognize \<Rightarrow> recognizeStart E s
           | KRead \<Rightarrow> connectionRead c s
           | KCycle pu \<Rightarrow> audioStreamNodeRead pu c s
           | KTelemetry telemetryData \<Rightarrow> telemetryMessage telemetryData c s
           | KSpeechContext \<Rightarrow> speechContextMessage E c s
           | KFinalAudio \<Rightarrow> finalAudioMessage c s
           | KDispose reason \<Rightarrow> connectionDispose reason c s
           | _ \<Rightarrow> s)
      | Failed error \<Rightarrow>
          (case k of
             KRecognize \<Rightarrow> recognizeFailed E error s
           | KCycle pu \<Rightarrow> snd (rejectPump E error pu s)
           | _ \<Rightarrow> s)
      | _ \<Rightarrow> s)"

definition takeWaiting :: "nat \<Rightarrow> core \<Rightarrow> cont list \<times> core" where
  "takeWaiting p s =
     (map snd (filter (\<lambda>w. fst w = p) (waiting s)),
      s\<lparr>waiting := filter (\<lambda>w. fst w \<noteq> p) (waiting s)\<rparr>)"

definition takeConfiguredWaiting :: "nat \<Rightarrow> core \<Rightarrow> cont list \<times> core" where
  "takeConfiguredWaiting q s =
     (map snd (filter (\<lambda>w. fst w = q) (configuredWaiting s)),
      s\<lparr>configuredWaiting := filter (\<lambda>w. fst w \<noteq> q) (configuredWaiting s)\<rparr>)"

definition completeConfigured :: "collaborators \<Rightarrow> nat \<Rightarrow> outcome \<Rightarrow> core \<Rightarrow> core" where
  "completeConfigured E q v s =
     (let (ks, s1) = takeConfiguredWaiting q (settleConfigured q v s) in foldl (runConfigured E v) s1 ks)"

definition resolveConfigured :: "collaborators \<Rightarrow> nat \<Rightarrow> string \<Rightarrow> core \<Rightarrow> core" where
  "resolveConfigured E q connection s = completeConfigured E q (Conn connection) s"

text \<open>
  The promise of a connection completes.  The callbacks on it are the chain of
  \<^verbatim>\<open>configureConnection\<close>, the \<^verbatim>\<open>dispose\<close> of \<^verbatim>\<open>disconnect\<close>, and a promise that was returned
  from a continuation and completes with this one.  The first argument bounds the length
  of such a chain of promises; \<open>completeConnection\<close> gives it the number of promises made.
\<close>

fun completeConnectionN :: "nat \<Rightarrow> collaborators \<Rightarrow> nat \<Rightarrow> outcome \<Rightarrow> core \<Rightarrow> core" where
  "completeConnectionN 0 E p v s = s"
| "completeConnectionN (Suc n) E p v s =
     (let (ks, s1) = takeWaiting p (settle p v s)
      in foldl (\<lambda>s k.
            case k of
              KConfigure q \<Rightarrow>
                (case v of
                   Conn c \<Rightarrow> configStep (resolveConfigured E) E q c s
                 | Failed error \<Rightarrow> completeConfigured E q (Failed error) s
                 | _ \<Rightarrow> s)
            | KDispose reason \<Rightarrow> (case v of Conn c \<Rightarrow> connectionDispose reason c s | _ \<Rightarrow> s)
            | KFollow p' \<Rightarrow> completeConnectionN n E p' v s
            | _ \<Rightarrow> s) s1 ks)"

definition completeConnection :: "collaborators \<Rightarrow> nat \<Rightarrow> outcome \<Rightarrow> core \<Rightarrow> core" where
  "completeConnection E p v s = completeConnectionN (Suc (nextPromise s)) E p v s"

subsection \<open>The continuations of connectImpl\<close>

text \<open>
  The continuation of the authentication.  \<^verbatim>\<open>connectionFactory.create\<close> is given
  \<^verbatim>\<open>this.privConnectionId\<close> as it is when the continuation runs.  The promise that
  \<^verbatim>\<open>continueWithPromise\<close> returned is \<open>p\<close>; the promise of the inner continuation is only
  ever waited for by \<open>p\<close> and is not kept apart from it.
\<close>

definition onAuth :: "collaborators \<Rightarrow> nat \<Rightarrow> bool \<Rightarrow> outcome \<Rightarrow> core \<Rightarrow> core" where
  "onAuth E p isUnAuthorized v s =
     (case v of
        Failed error \<Rightarrow> completeConnection E p (Failed error) (session (onAuthCompleted True) s)
      | AuthInfo a \<Rightarrow>
          (let s1 = session (onAuthCompleted False) s;
               c = (case privConnectionId s1 of Some c \<Rightarrow> c | None \<Rightarrow> ''null'');
               s2 = emit (Open c) (emit (Create c) s1);
               (f, s3) = newFuture s2
           in await f (KOpen p isUnAuthorized c) s3)
      | _ \<Rightarrow> s)"

definition unableToContactServer :: "collaborators \<Rightarrow> nat \<Rightarrow> string \<Rightarrow> string" where
  "unableToContactServer E statusCode reason =
     ''Unable to contact server. StatusCode: '' @ toString statusCode @ '', '' @
     (case getProperty (parameters E) ''SpeechServiceConnection_Endpoint'' None of
        Some e \<Rightarrow> e | None \<Rightarrow> ''undefined'') @
     '' Reason: '' @ reason"

text \<open>
  The continuation of \<^verbatim>\<open>connection.open()\<close>.  On a 403 that is not a retry the continuation
  returns \<^verbatim>\<open>this.connectImpl(true)\<close>, and \<open>p\<close> completes when that promise does.
\<close>

definition onOpen :: "collaborators \<Rightarrow> nat \<Rightarrow> bool \<Rightarrow> string \<Rightarrow> outcome \<Rightarrow> core \<Rightarrow> core" where
  "onOpen E p isUnAuthorized connection v s =
     (case v of
        Failed error \<Rightarrow> completeConnection E p (Failed error) s
      | OpenResponse statusCode reason \<Rightarrow>
          if statusCode = 200 then
            completeConnection E p (Conn connection)
              (session (onConnectionEstablishCompleted statusCode)
                 (session (onPreConnectionStart (privAuthFetchEventId s) (privConnectionId s)) s))
          else if statusCode = 403 \<and> \<not> isUnAuthorized then
            (let (r, s1) = connectImpl True s
             in case settled s1 r of
                  None \<Rightarrow> wait r (KFollow p) s1
                | Some w \<Rightarrow> completeConnection E p w s1)
          else
            completeConnection E p (Failed (unableToContactServer E statusCode reason))
              (session (onConnectionEstablishCompleted statusCode) s)
      | _ \<Rightarrow> s)"

subsection \<open>The continuations of the sends, of recognize and of the pump\<close>

definition onConfigSent :: "collaborators \<Rightarrow> nat \<Rightarrow> string \<Rightarrow> outcome \<Rightarrow> core \<Rightarrow> core" where
  "onConfigSent E q connection v s =
     (case v of
        Sent \<Rightarrow> contextStep (resolveConfigured E) E q connection s
      | Failed error \<Rightarrow> completeConfigured E q (Failed error) s
      | _ \<Rightarrow> s)"

definition onContextSent :: "collaborators \<Rightarrow> nat \<Rightarrow> string \<Rightarrow> outcome \<Rightarrow> core \<Rightarrow> core" where
  "onContextSent E q connection v s =
     (case v of
        Sent \<Rightarrow> resolveConfigured E q connection s
      | Failed error \<Rightarrow> completeConfigured E q (Failed error) s
      | _ \<Rightarrow> s)"

text \<open>
  The continuation of \<^verbatim>\<open>audioSource.attach\<close> in \<^verbatim>\<open>recognize\<close>; the device information is
  taken as available, and what it writes into the speech configuration is part of the
  serialized configuration the collaborators give.
\<close>

definition onAttach :: "collaborators \<Rightarrow> outcome \<Rightarrow> core \<Rightarrow> core" where
  "onAttach E v s =
     (case v of
        Failed error \<Rightarrow> recognizeFailed E error s
      | Attached \<Rightarrow>
          (let s1 = session onAudioSourceAttachCompleted s;
               (q, s2) = configureConnection E s1
           in case configured s2 q of
                None \<Rightarrow> waitConfigured q KRecognize s2
              | Some (Conn c) \<Rightarrow> recognizeStart E s2
              | Some (Failed error) \<Rightarrow> recognizeFailed E error s2
              | Some _ \<Rightarrow> s2)
      | _ \<Rightarrow> s)"

definition onChunk :: "collaborators \<Rightarrow> pump \<Rightarrow> string \<Rightarrow> outcome \<Rightarrow> core \<Rightarrow> core" where
  "onChunk E pu connection v s =
     (case v of
        Chunk buffer isEnd \<Rightarrow> snd (onAudioChunk E pu connection buffer isEnd s)
      | Failed error \<Rightarrow> snd (onAudioError E pu error s)
      | _ \<Rightarrow> s)"

text \<open>A callback that waited for a future of a collaborator runs with what the future completed with.\<close>

definition runCallback :: "collaborators \<Rightarrow> outcome \<Rightarrow> core \<Rightarrow> cont \<Rightarrow> core" where
  "runCallback E v s k =
     (case k of
        KAttach \<Rightarrow> onAttach E v s
      | KAuth p isUnAuthorized \<Rightarrow> onAuth E p isUnAuthorized v s
      | KOpen p isUnAuthorized c \<Rightarrow> onOpen E p isUnAuthorized c v s
      | KConfigSent q c \<Rightarrow> onConfigSent E q c v s
      | KContextSent q c \<Rightarrow> onContextSent E q c v s
      | KMessage \<Rightarrow> onMessage E v s
      | KChunk pu c \<Rightarrow> onChunk E pu c v s
      | KTimer pu uploaded \<Rightarrow> snd (onTimer E pu uploaded s)
      | KUploaded pu \<Rightarrow> snd (readAndUploadCycle E pu s)
      | _ \<Rightarrow> s)"

subsection \<open>The public operations\<close>

definition recognize :: "collaborators \<Rightarrow> RecognitionMode \<Rightarrow> core \<Rightarrow> core" where
  "recognize E recoMode s =
     (let s1 = s\<lparr>privConnectionConfigurationPromise := None, recognitionMode := recoMode\<rparr>;
          s2 = session (startNewRecognition (createNoDashGuid (guids s1)) (createNoDashGuid (Suc (guids s1))))
                 (s1\<lparr>guids := guids s1 + 2\<rparr>);
          (p, s3) = connectImpl False s2;
          (f, s4) = newFuture (emit Attach s3)
      in await f KAttach s4)"

definition sendFinalAudio :: "collaborators \<Rightarrow> core \<Rightarrow> core" where
  "sendFinalAudio E s =
     (let (q, s1) = fetchConnection E s in onSuccessContinueWith q KFinalAudio finalAudioMessage s1)"

definition stopRecognizing :: "collaborators \<Rightarrow> core \<Rightarrow> core" where
  "stopRecognizing E s =
     (if isRecognizing (privRequestSession s) then
        (let s1 = session onStopRecognizing s;
             s2 = sendTelemetryData E s1;
             s3 = emit TurnOff s2;
             s4 = sendFinalAudio E s3
         in session sessionDispose s4)
      else s)"

definition connect :: "core \<Rightarrow> core" where
  "connect s = snd (connectImpl False s)"

datatype exn = TypeError string

text \<open>
  \<^verbatim>\<open>disconnect\<close> reads \<^verbatim>\<open>this.privConnectionPromise.result()\<close> without a test of the field:
  on a field that is null or undefined the host raises a TypeError.
\<close>

definition disconnect :: "collaborators \<Rightarrow> core \<Rightarrow> exn + core" where
  "disconnect E s =
     (let s1 = cancelRecognitionLocal E Error NoError (Some ''Disconnecting'') s
      in case privConnectionPromise s1 of
           None \<Rightarrow> Inl (TypeError ''privConnectionPromise is undefined'')
         | Some p \<Rightarrow>
             (case settled s1 p of
                Some (Conn c) \<Rightarrow> Inr ((connectionDispose None c s1)\<lparr>privConnectionPromise := None\<rparr>)
              | Some _ \<Rightarrow> Inr s1
              | None \<Rightarrow> Inr (wait p (KDispose None) s1)))"

definition dispose :: "string option \<Rightarrow> core \<Rightarrow> core" where
  "dispose reason s =
     (let s1 = s\<lparr>privIsDisposed := True\<rparr>
      in case privConnectionConfigurationPromise s1 of
           None \<Rightarrow> s1
         | Some q \<Rightarrow> onSuccessContinueWith q (KDispose reason) (connectionDispose reason) s1)"

subsection \<open>Runs\<close>

text \<open>
  What can happen to the core: a call of a public operation, a future of a collaborator
  completes, the transport reports a new state for a connection, time passes.
\<close>

datatype event =
    CallRecognize RecognitionMode
  | CallStopRecognizing
  | CallConnect
  | CallDisconnect
  | CallDispose "string option"
  | Completes nat outcome
  | StateChanges string ConnectionState
  | TimeIs rat

definition isSend :: "nat \<Rightarrow> action \<Rightarrow> bool" where
  "isSend f a = (case a of Send g c m \<Rightarrow> g = f | _ \<Rightarrow> False)"

definition complete :: "collaborators \<Rightarrow> nat \<Rightarrow> outcome \<Rightarrow> core \<Rightarrow> core" where
  "complete E f v s =
     (if f < nextFuture s \<and> completed s f = None then
        (let s1 = (if list_ex (isSend f) (trace s) then emit (SendDone f (v = Sent)) s else s);
             s2 = s1\<lparr>completed := (completed s1)(f \<mapsto> v)\<rparr>;
             ks = map snd (filter (\<lambda>w. fst w = f) (callbacks s2));
             s3 = s2\<lparr>callbacks := filter (\<lambda>w. fst w \<noteq> f) (callbacks s2)\<rparr>
         in foldl (runCallback E v) s3 ks)
      else s)"

definition step :: "collaborators \<Rightarrow> event \<Rightarrow> core \<Rightarrow> exn + core" where
  "step E ev s =
     (case ev of
        CallRecognize recoMode \<Rightarrow> Inr (recognize E recoMode s)
      | CallStopRecognizing \<Rightarrow> Inr (stopRecognizing E s)
      | CallConnect \<Rightarrow> Inr (connect s)
      | CallDisconnect \<Rightarrow> disconnect E s
      | CallDispose reason \<Rightarrow> Inr (dispose reason s)
      | Completes f v \<Rightarrow> Inr (complete E f v s)
      | StateChanges c st \<Rightarrow> Inr (s\<lparr>connectionState := (connectionState s)(c := st)\<rparr>)
      | TimeIs t \<Rightarrow> Inr (s\<lparr>now := t\<rparr>))"

fun run :: "collaborators \<Rightarrow> event list \<Rightarrow> core \<Rightarrow> exn + core" where
  "run E [] s = Inr s"
| "run E (ev # evs) s = (case step E ev s of Inl x \<Rightarrow> Inl x | Inr s1 \<Rightarrow> run E evs s1)"

subsection \<open>Example collaborators and runs\<close>

text \<open>
  Modelled from the spec: \<^verbatim>\<open>SpeechDetected.fromJSON\<close> is not part of the sources; the spec
  says it parses \<^verbatim>\<open>{Offset}\<close> from the body.  This reader takes the number behind the
  first occurrence of the key.  It is used in the examples only; the theorems hold for
  every parser.
\<close>

fun afterKey :: "string \<Rightarrow> string \<Rightarrow> string option" where
  "afterKey key [] = None"
| "afterKey key (c # t) =
     (if take (length key) (c # t) = key then Some (drop (length key) (c # t)) else afterKey key t)"

definition offsetOf :: "string \<Rightarrow> int option" where
  "offsetOf t =
     (case afterKey ''Offset'' t of
        None \<Rightarrow> None
      | Some r \<Rightarrow> parseInt (dropWhile (\<lambda>c. c = CHR 0x22 \<or> c = CHR '':'' \<or> isSpace c) r))"

definition exampleCollaborators :: collaborators where
  "exampleCollaborators =
     \<lparr>telemetryDataEnabled = True,
      SpeechServiceConfigJson = ''{context:{system:{version:1.7.0},os:{platform:Browser}}}'',
      systemOnlyConfigJson = ''{context:{system:{version:1.7.0}}}'',
      speechContextJson = ''{}'',
      parameters = [],
      avgBytesPerSec = 32000,
      isMicrophones = False,
      SpeechDetected_fromJSON = offsetOf,
      hasSessionStarted = True, hasSessionStopped = True,
      hasSpeechStartDetected = True, hasSpeechEndDetected = True\<rparr>"

text \<open>The state after a list of events that raises no exception, from the constructed core.\<close>

definition after :: "collaborators \<Rightarrow> event list \<Rightarrow> core" where
  "after E evs = (case run E evs newServiceRecognizerBase of Inr s \<Rightarrow> s | Inl x \<Rightarrow> newServiceRecognizerBase)"

text \<open>
  A continuous recognition up to the point where both loops run: the authentication
  answers, the audio node is attached, the transport opens with status 200, and the sends
  of \<^verbatim>\<open>speech.config\<close> and \<^verbatim>\<open>speech.context\<close> resolve.  Afterwards future 5 is the read of
  the receive loop and future 6 the read of the audio node.
\<close>

definition streaming :: "event list" where
  "streaming =
     [CallRecognize Conversation, Completes 0 (AuthInfo ''token''), Completes 1 Attached,
      Completes 2 (OpenResponse 200 []), Completes 3 Sent, Completes 4 Sent]"

definition streamingPump :: pump where
  "streamingPump =
     \<lparr>deferred = None, nextSendTime = 0, maxSendUnthrottledBytes = Some 160000, startRecogNumber = 1\<rparr>"

text \<open>One chunk of 3200 bytes is read and sent, then the application stops the recognition.\<close>

definition stopped :: "event list" where
  "stopped = streaming @ [Completes 6 (Chunk (replicate 3200 0) False), CallStopRecognizing]"

definition stoppedPump :: pump where
  "stoppedPump =
     \<lparr>deferred = None, nextSendTime = 50, maxSendUnthrottledBytes = Some 160000, startRecogNumber = 1\<rparr>"

text \<open>The messages of the service used in the examples.\<close>

definition turnEndMessage :: "string \<Rightarrow> string \<Rightarrow> SpeechConnectionMessage" where
  "turnEndMessage p rid = SpeechConnectionMessage Text p rid (Some ''application/json'') (TextBody [])"

definition endDetectedMessage :: "string \<Rightarrow> SpeechConnectionMessage" where
  "endDetectedMessage rid =
     SpeechConnectionMessage Text ''speech.enddetected'' rid (Some ''application/json'')
       (TextBody ''{Offset:10000000}'')"

text \<open>
  Two turns of a continuous recognition: in the first turn the service reports the end of
  speech at offset 10000000 and ends the turn; the session then has a new request id, the
  sixth id minted.  Afterwards future 6 is still the read of the audio node, future 9 the
  send of the \<^verbatim>\<open>speech.context\<close> of the second turn, and future 10 the read of the receive
  loop.
\<close>

definition twoTurns :: "event list" where
  "twoTurns = streaming @
     [Completes 5 (Message (Some (endDetectedMessage (createNoDashGuid 3)))),
      Completes 7 (Message (Some (turnEndMessage ''turn.end'' (createNoDashGuid 3))))]"

definition secondEndDetected :: "event list" where
  "secondEndDetected = twoTurns @ [Completes 10 (Message (Some (endDetectedMessage (createNoDashGuid 6))))]"

text \<open>
  \<^verbatim>\<open>connect()\<close> is called and the authentication answers; future 1 is then the
  \<^verbatim>\<open>open\<close> of the connection, still pending.
\<close>

definition forbidden :: "event list" where
  "forbidden = [CallConnect, Completes 0 (AuthInfo ''token'')]"

definition refused :: "event list" where
  "refused = forbidden @ [Completes 1 (OpenResponse 403 ''Forbidden'')]"

text \<open>After the refusal the application calls \<^verbatim>\<open>connect()\<close> again.\<close>

definition retried :: "event list" where
  "retried = forbidden @ [Completes 1 (OpenResponse 403 ''Forbidden''), CallConnect]"

text \<open>The recognition is streaming and the transport reports that the connection is gone.\<close>

definition dropped :: "event list" where
  "dropped = streaming @ [StateChanges (createNoDashGuid 5) Disconnected]"

text \<open>
  While the recognition is streaming the application calls \<^verbatim>\<open>recognize\<close> again, and the
  audio node is attached again (future 7).  The connection is the same.
\<close>

definition recognizedTwice :: "event list" where
  "recognizedTwice = streaming @ [CallRecognize Conversation, Completes 7 Attached]"

text \<open>
  After the first turn has ended the audio node delivers a chunk, while the send of the
  \<^verbatim>\<open>speech.context\<close> of the second turn (future 9) has not completed.
\<close>

definition secondTurnAudio :: "event list" where
  "secondTurnAudio = twoTurns @ [Completes 6 (Chunk (replicate 3200 0) False)]"

text \<open>
  A byte rate that is not a multiple of 1000 and a fast lane of 100 ms: the budget the
  source computes is \<open>4350 / 1000 * 100\<close> in doubles.  The run: the recognition is streaming, a
  chunk of 200 bytes is read and sent, its upload completes and its timer fires, the next
  read (future 9) delivers a chunk of 235 bytes.  The clock stands at 0 throughout.
\<close>

definition oddRate :: collaborators where
  "oddRate = exampleCollaborators\<lparr>avgBytesPerSec := 4350,
     parameters := [(''SPEECH-TransmitLengthBeforThrottleMs'', ''100'')]\<rparr>"

definition paced :: "event list" where
  "paced = streaming @
     [Completes 6 (Chunk (replicate 200 0) False), Completes 7 Sent, Completes 8 Tick,
      Completes 9 (Chunk (replicate 235 0) False)]"

text \<open>
  Modelled from the spec: \<^verbatim>\<open>SpeechDetected.fromJSON\<close> is not part of the sources; its name
  and the spec say it parses a JSON document.  In JSON the name of a member is a string in
  double quotes.  This reader accepts the documents \<^verbatim>\<open>{"Offset": n}\<close> with a decimal \<open>n\<close> and
  white space between the tokens, and nothing else.  It is used in an example only.
\<close>

definition expect :: "string \<Rightarrow> string \<Rightarrow> string option" where
  "expect w t = (if take (length w) t = w then Some (drop (length w) t) else None)"

definition strictOffsetOf :: "string \<Rightarrow> int option" where
  "strictOffsetOf t =
     (case expect ''{'' (dropWhile isSpace t) of
        None \<Rightarrow> None
      | Some t1 \<Rightarrow>
          (case expect ([CHR 0x22] @ ''Offset'' @ [CHR 0x22]) (dropWhile isSpace t1) of
             None \<Rightarrow> None
           | Some t2 \<Rightarrow>
               (case expect '':'' (dropWhile isSpace t2) of
                  None \<Rightarrow> None
                | Some t3 \<Rightarrow>
                    (let t4 = dropWhile isSpace t3
                     in if takeWhile isDigit t4 = [] then None
                        else if dropWhile isSpace (dropWhile isDigit t4) = ''}''
                             then parseInt (takeWhile isDigit t4) else None))))"

definition strictCollaborators :: collaborators where
  "strictCollaborators = exampleCollaborators\<lparr>SpeechDetected_fromJSON := strictOffsetOf\<rparr>"

text \<open>A \<^verbatim>\<open>speech.enddetected\<close> message with an empty body.\<close>

definition emptyEndDetected :: "string \<Rightarrow> SpeechConnectionMessage" where
  "emptyEndDetected rid =
     SpeechConnectionMessage Text ''speech.enddetected'' rid (Some ''application/json'') (TextBody [])"

subsection \<open>Notions used in the statements\<close>

text \<open>The \<^verbatim>\<open>speech.config\<close> messages handed to the transport on a connection, in a log.\<close>

definition isConfigOn :: "string \<Rightarrow> action \<Rightarrow> bool" where
  "isConfigOn c a = (case a of Send f c' m \<Rightarrow> c' = c \<and> path m = ''speech.config'' | _ \<Rightarrow> False)"

definition configSends :: "string \<Rightarrow> action list \<Rightarrow> action list" where
  "configSends c tr = filter (isConfigOn c) tr"

text \<open>The connections the connection factory was asked for, in order.\<close>

definition createdConnections :: "action list \<Rightarrow> string list" where
  "createdConnections tr = concat (map (\<lambda>a. case a of Create c \<Rightarrow> [c] | _ \<Rightarrow> []) tr)"

text \<open>The request ids of the Binary frames handed to the transport, in order.\<close>

definition audioRequestIds :: "action list \<Rightarrow> string list" where
  "audioRequestIds tr =
     concat (map (\<lambda>a. case a of Send f c m \<Rightarrow> (if messageType m = Binary then [msgRequestId m] else [])
                        | _ \<Rightarrow> []) tr)"

text \<open>Some \<^verbatim>\<open>speech.context\<close> message with this request id was sent and its send future resolved.\<close>

definition isResolvedContext :: "string \<Rightarrow> action list \<Rightarrow> action \<Rightarrow> bool" where
  "isResolvedContext rid tr a =
     (case a of
        Send f c m \<Rightarrow> path m = ''speech.context'' \<and> msgRequestId m = rid \<and> SendDone f True \<in> set tr
      | _ \<Rightarrow> False)"

definition contextResolvedFor :: "string \<Rightarrow> action list \<Rightarrow> bool" where
  "contextResolvedFor rid tr = list_ex (isResolvedContext rid tr) tr"

definition flowCore :: "flow \<Rightarrow> core" where
  "flowCore x = (case x of Returned s \<Rightarrow> s | Next s \<Rightarrow> s | Thrown s \<Rightarrow> s)"

text \<open>
  A usable configured-connection promise is stored; and: the second state has the same
  \<^verbatim>\<open>speech.config\<close> messages on a connection, the same promise results, the same transport
  states and the same stored configured-connection promise as the first.
\<close>

definition usable :: "nat \<Rightarrow> core \<Rightarrow> bool" where
  "usable q s = (privConnectionConfigurationPromise s = Some q \<and> \<not> configuredUnusable s q)"

definition quiet :: "string \<Rightarrow> core \<Rightarrow> core \<Rightarrow> bool" where
  "quiet c s s' =
     (configSends c (trace s') = configSends c (trace s) \<and> configured s' = configured s \<and>
      connectionState s' = connectionState s \<and>
      privConnectionConfigurationPromise s' = privConnectionConfigurationPromise s)"

text \<open>An event that is neither a call of \<^verbatim>\<open>recognize\<close> nor a call of \<^verbatim>\<open>connect\<close>.\<close>

definition beforeConnecting :: "event \<Rightarrow> bool" where
  "beforeConnecting ev = (case ev of CallRecognize recoMode \<Rightarrow> False | CallConnect \<Rightarrow> False | _ \<Rightarrow> True)"

text \<open>No connection was ever asked for: both promises are undefined and nothing is pending.\<close>

definition untouched :: "core \<Rightarrow> bool" where
  "untouched s =
     (privConnectionPromise s = None \<and> privConnectionConfigurationPromise s = None \<and>
      \<not> isRecognizing (privRequestSession s) \<and> nextFuture s = 0)"

text \<open>The arguments of the calls of \<^verbatim>\<open>session.onServiceRecognized\<close> in a log, in order.\<close>

definition serviceRecognizedCalls :: "action list \<Rightarrow> int list" where
  "serviceRecognizedCalls tr = concat (map (\<lambda>a. case a of ServiceRecognized n \<Rightarrow> [n] | _ \<Rightarrow> []) tr)"

text \<open>
  The second state differs from the first at most in what the connection manager and the
  sends touch: the mode, the two flags of the core and every field of the session but the
  telemetry accumulator are the same.
\<close>

definition unchanged :: "core \<Rightarrow> core \<Rightarrow> bool" where
  "unchanged s s' =
     (recognitionMode s' = recognitionMode s \<and> privIsDisposed s' = privIsDisposed s \<and>
      privMustReportEndOfStream s' = privMustReportEndOfStream s \<and>
      (privRequestSession s')\<lparr>telemetry := []\<rparr> = (privRequestSession s)\<lparr>telemetry := []\<rparr>)"

text \<open>
  The order of the sends on a connection, read off a log.  \<open>handed p f c\<close>: the send with
  future \<open>f\<close> handed a Text message with path \<open>p\<close> to the transport on connection \<open>c\<close>.
  \<open>sendResolved p c\<close>: the future of such a send has resolved.
\<close>

definition isTextSend :: "string \<Rightarrow> string \<Rightarrow> nat \<Rightarrow> action \<Rightarrow> bool" where
  "isTextSend p c f a =
     (case a of Send g k m \<Rightarrow> g = f \<and> k = c \<and> path m = p \<and> messageType m = Text | _ \<Rightarrow> False)"

definition handed :: "string \<Rightarrow> nat \<Rightarrow> string \<Rightarrow> action list \<Rightarrow> bool" where
  "handed p f c tr = list_ex (isTextSend p c f) tr"

definition isResolvedSend :: "string \<Rightarrow> string \<Rightarrow> action list \<Rightarrow> action \<Rightarrow> bool" where
  "isResolvedSend p c tr a = (case a of SendDone f ok \<Rightarrow> ok \<and> handed p f c tr | _ \<Rightarrow> False)"

definition sendResolved :: "string \<Rightarrow> string \<Rightarrow> action list \<Rightarrow> bool" where
  "sendResolved p c tr = list_ex (isResolvedSend p c tr) tr"

text \<open>Something was handed to the transport on the connection.\<close>

definition isSendOn :: "string \<Rightarrow> action \<Rightarrow> bool" where
  "isSendOn c a = (case a of Send f k m \<Rightarrow> k = c | _ \<Rightarrow> False)"

definition sentOn :: "string \<Rightarrow> action list \<Rightarrow> bool" where
  "sentOn c tr = list_ex (isSendOn c) tr"

text \<open>
  A message is in order behind the log \<open>pre\<close> on connection \<open>c\<close>: it is a
  \<^verbatim>\<open>speech.config\<close>; or it is a \<^verbatim>\<open>speech.context\<close> and the send of a \<^verbatim>\<open>speech.config\<close> on
  \<open>c\<close> has resolved in \<open>pre\<close>; or it is anything else (audio, telemetry) and the send of a
  \<^verbatim>\<open>speech.context\<close> on \<open>c\<close> has resolved in \<open>pre\<close>.  A log is ordered when each of its
  sends is in order behind what precedes it.
\<close>

definition inOrder :: "action list \<Rightarrow> string \<Rightarrow> SpeechConnectionMessage \<Rightarrow> bool" where
  "inOrder pre c m =
     (if messageType m = Text \<and> path m = ''speech.config'' then True
      else if messageType m = Text \<and> path m = ''speech.context'' then sendResolved ''speech.config'' c pre
      else sendResolved ''speech.context'' c pre)"

definition admissible :: "action list \<Rightarrow> action \<Rightarrow> bool" where
  "admissible pre a = (case a of Send f c m \<Rightarrow> inOrder pre c m | _ \<Rightarrow> True)"

fun ordered :: "action list \<Rightarrow> action list \<Rightarrow> bool" where
  "ordered pre [] = True"
| "ordered pre (a # tr) = (admissible pre a \<and> ordered (pre @ [a]) tr)"

text \<open>
  What every reachable state satisfies.  The log is ordered; a configured-connection
  promise that has resolved with a connection did so behind a resolved \<^verbatim>\<open>speech.context\<close>
  on it; the continuation of a send of the chain waits for the future of that very send;
  the continuation of a read of the audio node holds a connection with a resolved
  \<^verbatim>\<open>speech.context\<close>.  \<open>R\<close> collects further sends known to have resolved while a list of
  callbacks runs; \<open>needs\<close> is what a callback relies on when it runs with a result.
\<close>

definition cbOk :: "action list \<Rightarrow> nat \<times> cont \<Rightarrow> bool" where
  "cbOk tr fk =
     (case snd fk of
        KChunk pu c \<Rightarrow> sendResolved ''speech.context'' c tr
      | KConfigSent q c \<Rightarrow> handed ''speech.config'' (fst fk) c tr
      | KContextSent q c \<Rightarrow> handed ''speech.context'' (fst fk) c tr
      | _ \<Rightarrow> True)"

definition safe :: "(string \<times> string) set \<Rightarrow> core \<Rightarrow> bool" where
  "safe R s =
     (ordered [] (trace s) \<and>
      (\<forall>q c. configured s q = Some (Conn c) \<longrightarrow> sendResolved ''speech.context'' c (trace s)) \<and>
      list_all (cbOk (trace s)) (callbacks s) \<and>
      (\<forall>pc\<in>R. sendResolved (fst pc) (snd pc) (trace s)))"

definition needs :: "outcome \<Rightarrow> cont \<Rightarrow> (string \<times> string) set" where
  "needs v k =
     (case k of
        KChunk pu c \<Rightarrow> {(''speech.context'', c)}
      | KConfigSent q c \<Rightarrow> (if v = Sent then {(''speech.config'', c)} else {})
      | KContextSent q c \<Rightarrow> (if v = Sent then {(''speech.context'', c)} else {})
      | _ \<Rightarrow> {})"

text \<open>
  The serialized speech configuration that is sent and the speech context are not empty
  strings, so that neither \<^verbatim>\<open>if (SpeechServiceConfigJson)\<close> nor \<^verbatim>\<open>if (speechContextJson)\<close>
  skips its send.
\<close>

definition nonEmptyJson :: "collaborators \<Rightarrow> bool" where
  "nonEmptyJson E =
     ((if telemetryDataEnabled E then SpeechServiceConfigJson E else systemOnlyConfigJson E) \<noteq> [] \<and>
      speechContextJson E \<noteq> [])"

text \<open>
  The attempts to connect, read off a state.  The continuations of an attempt are the one
  of the authentication and the one of \<^verbatim>\<open>open\<close>; \<open>own D s p b\<close> says of the promise \<open>p\<close> and
  the flag \<open>isUnAuthorized = b\<close> of such a continuation that \<open>p\<close> is the stored connection
  promise, is pending, and that the attempt is not a retry.  A promise that was made to
  follow itself is stuck: it is stored, pending, and no attempt is under way.  What every
  reachable state satisfies: at most one attempt is under way and it owns the stored
  promise; every promise that follows another follows itself and is stuck;
  \<^verbatim>\<open>fetchOnExpiry\<close> was never called.  \<open>X\<close> are the callbacks taken off the list that have
  not run yet, \<open>D\<close> promises that are being completed, \<open>S\<close> promises known to be stuck.
\<close>

definition isFetchOnExpiry :: "action \<Rightarrow> bool" where
  "isFetchOnExpiry a = (case a of FetchOnExpiry x \<Rightarrow> True | _ \<Rightarrow> False)"

definition isAttempt :: "cont \<Rightarrow> bool" where
  "isAttempt k = (case k of KAuth p b \<Rightarrow> True | KOpen p b c \<Rightarrow> True | _ \<Rightarrow> False)"

definition own :: "nat set \<Rightarrow> core \<Rightarrow> nat \<Rightarrow> bool \<Rightarrow> bool" where
  "own D s p b =
     (privConnectionPromise s = Some p \<and> settled s p = None \<and> \<not> b \<and> p \<notin> D \<and> p < nextPromise s)"

definition good :: "nat set \<Rightarrow> core \<Rightarrow> cont \<Rightarrow> bool" where
  "good D s k = (case k of KAuth p b \<Rightarrow> own D s p b | KOpen p b c \<Rightarrow> own D s p b | _ \<Rightarrow> True)"

definition isFollow :: "nat \<times> cont \<Rightarrow> bool" where
  "isFollow w = (case snd w of KFollow p \<Rightarrow> True | _ \<Rightarrow> False)"

definition attempts :: "core \<Rightarrow> cont list \<Rightarrow> cont list" where
  "attempts s X = filter isAttempt (map snd (callbacks s) @ X)"

definition stuck :: "nat set \<Rightarrow> core \<Rightarrow> cont list \<Rightarrow> nat \<times> cont \<Rightarrow> bool" where
  "stuck D s X w =
     (case snd w of
        KFollow p \<Rightarrow>
          fst w = p \<and> privConnectionPromise s = Some p \<and> settled s p = None \<and> p \<notin> D \<and>
          attempts s X = []
      | _ \<Rightarrow> True)"

definition calm :: "nat set \<Rightarrow> nat set \<Rightarrow> cont list \<Rightarrow> core \<Rightarrow> bool" where
  "calm D S X s =
     (length (attempts s X) \<le> 1 \<and>
      list_all (good D s) (attempts s X) \<and>
      list_all (stuck D s X) (waiting s) \<and>
      (\<forall>p. nextPromise s \<le> p \<longrightarrow> settled s p = None) \<and>
      (\<forall>p\<in>D. p < nextPromise s) \<and>
      (\<forall>p\<in>S. (p, KFollow p) \<in> set (waiting s)) \<and>
      \<not> list_ex isFetchOnExpiry (trace s))"

text \<open>The promises that get stuck when a callback runs with a result.\<close>

definition stuckBy :: "outcome \<Rightarrow> cont \<Rightarrow> nat set" where
  "stuckBy v k =
     (case k of
        KOpen p b c \<Rightarrow> (case v of OpenResponse statusCode reason \<Rightarrow> if statusCode = 403 then {p} else {} | _ \<Rightarrow> {})
      | _ \<Rightarrow> {})"

text \<open>
  The \<^verbatim>\<open>speech.config\<close> messages handed to the transport in a log, on whatever connection.
  The configured-connection promises are numbered from 0 in the order in which
  \<^verbatim>\<open>configureConnection\<close> constructs them, so \<open>nextConfigured\<close> is the number of those
  constructed so far.  A chain that waits for the connection (the continuation
  \<open>KConfigure\<close>) has its \<^verbatim>\<open>speech.config\<close> still to send.  \<open>credit n s\<close>: the messages sent and
  the chains that wait are together at most \<open>n\<close> more than the promises constructed.
\<close>

definition isConfig :: "action \<Rightarrow> bool" where
  "isConfig a = (case a of Send f c m \<Rightarrow> path m = ''speech.config'' | _ \<Rightarrow> False)"

definition isConfigure :: "cont \<Rightarrow> bool" where
  "isConfigure k = (case k of KConfigure q \<Rightarrow> True | _ \<Rightarrow> False)"

definition credit :: "int \<Rightarrow> core \<Rightarrow> bool" where
  "credit n s =
     (int (length (filter isConfig (trace s))) + int (length (filter isConfigure (map snd (waiting s))))
        \<le> int (nextConfigured s) + n)"

text \<open>
  The variables of a pump that a continuation holds, and: it holds none, or the budget of
  the pump it holds is the one \<^verbatim>\<open>sendAudio\<close> computes.  \<open>pumped E s\<close>: so it is for every
  continuation that waits in the state.
\<close>

definition pumpOf :: "cont \<Rightarrow> pump option" where
  "pumpOf k =
     (case k of KCycle pu \<Rightarrow> Some pu | KChunk pu c \<Rightarrow> Some pu | KTimer pu u \<Rightarrow> Some pu
      | KUploaded pu \<Rightarrow> Some pu | _ \<Rightarrow> None)"

definition budgeted :: "collaborators \<Rightarrow> cont \<Rightarrow> bool" where
  "budgeted E k =
     (case pumpOf k of None \<Rightarrow> True | Some pu \<Rightarrow> maxSendUnthrottledBytes pu = maxUnthrottled E)"

definition pumped :: "collaborators \<Rightarrow> core \<Rightarrow> bool" where
  "pumped E s =
     (list_all (budgeted E) (map snd (callbacks s)) \<and>
      list_all (budgeted E) (map snd (configuredWaiting s)))"

section \<open>Properties\<close>

lemmas session_defs =
  newRequestSession_def startNewRecognition_def record_phase_def onPreConnectionStart_def
  onAuthCompleted_def onConnectionEstablishCompleted_def onAudioSourceAttachCompleted_def
  onAudioSent_def onServiceRecognized_def onServiceTurnEndResponse_def onSpeechEnded_def
  onStopRecognizing_def sessionDispose_def getTelemetry_def

lemmas core_defs =
  emit_def await_def newFuture_def wait_def newPromise_def settle_def waitConfigured_def
  newConfigured_def settleConfigured_def session_def send_def
  isContinuousRecognition_def newServiceRecognizerBase_def completedUnusable_def
  configuredUnusable_def connectAttempt_def
  connectImpl_def sendSpeechServiceConfig_def sendSpeechContext_def contextStep_def configStep_def
  configureAttempt_def configureConnection_def fetchConnection_def onSuccessContinueWith_def
  telemetryMessage_def sendTelemetryData_def cancelRecognitionLocal_def connectionRead_def
  receiveMessage_def onSpeechStartDetected_def onSpeechEndDetected_def speechContextMessage_def
  onTurnEnd_def handleMessage_def onMessage_def fastLaneSizeMs_def maxUnthrottled_def resolvePump_def
  rejectPump_def audioStreamNodeRead_def readAndUploadCycle_def sendAudio_def sendDelay_def
  onAudioChunk_def onAudioError_def onTimer_def recognizeStart_def recognizeFailed_def
  finalAudioMessage_def connectionDispose_def runConfigured_def takeWaiting_def
  takeConfiguredWaiting_def completeConfigured_def
  resolveConfigured_def completeConnection_def onAuth_def unableToContactServer_def onOpen_def
  onConfigSent_def onContextSent_def onAttach_def onChunk_def runCallback_def recognize_def
  sendFinalAudio_def stopRecognizing_def connect_def disconnect_def dispose_def isSend_def
  complete_def step_def getProperty_def

lemmas example_defs =
  after_def retried_def oddRate_def paced_def strictCollaborators_def emptyEndDetected_def
  streaming_def stopped_def streamingPump_def stoppedPump_def exampleCollaborators_def
  twoTurns_def secondEndDetected_def turnEndMessage_def endDetectedMessage_def toLowerCase_def
  offsetOf_def serviceRecognizedCalls_def forbidden_def refused_def dropped_def
  recognizedTwice_def secondTurnAudio_def configSends_def isConfigOn_def audioRequestIds_def
  contextResolvedFor_def isResolvedContext_def createdConnections_def
  parseInt_def isSpace_def isDigit_def byteLength_def textBody_def Let_def

text \<open>
  Congruence rules that make the simplifier run a concrete list of events the way the
  program runs: the branch of a conditional or of a case is looked at only once it is taken.
\<close>

lemmas run_cong =
  let_weak_cong if_weak_cong prod.case_cong_weak option.case_cong_weak outcome.case_cong_weak
  cont.case_cong_weak sum.case_cong_weak list.case_cong_weak event.case_cong_weak
  flow.case_cong_weak

subsection \<open>The rounding of doubles\<close>

text \<open>An integer of magnitude below \<open>2 ^ 53\<close> is a double.\<close>

lemma roundEven_int: "roundEven (of_int k) = k"
  by (simp add: roundEven_def)

lemma exponent_int:
  assumes "0 < a" "a < 2 ^ 53"
  shows "max (exponent (of_int a) - 52) (- 1074) = - int (nat (53 - bitlen a))"
proof -
  have "bitlen a \<le> 53" using assms by (simp add: bitlen_le_iff_power)
  moreover have "0 \<le> bitlen a" by (rule bitlen_nonneg)
  ultimately show ?thesis using assms by (simp add: exponent_def)
qed

lemma scaled_int: "of_int (roundEven (of_int a / pow2 (- int k))) * pow2 (- int k) = (of_int a :: rat)"
proof -
  have p: "pow2 (- int k) = 1 / 2 ^ k" by (simp add: pow2_def)
  have "of_int a / pow2 (- int k) = (of_int (a * 2 ^ k) :: rat)" unfolding p by simp
  then have "roundEven (of_int a / pow2 (- int k)) = roundEven (of_int (a * 2 ^ k))" by (rule arg_cong)
  then have "roundEven (of_int a / pow2 (- int k)) = a * 2 ^ k" unfolding roundEven_int .
  then show ?thesis unfolding p by simp
qed

lemma fl_pos:
  assumes "0 < a" "a < 2 ^ 53"
  shows "fl (of_int a) = of_int a"
proof -
  have "(of_int a :: rat) \<noteq> 0" "\<not> (of_int a :: rat) < 0" "\<bar>(of_int a :: rat)\<bar> = of_int a"
    using assms(1) by simp_all
  then have "fl (of_int a) =
      of_int (roundEven (of_int a / pow2 (max (exponent (of_int a) - 52) (- 1074)))) *
      pow2 (max (exponent (of_int a) - 52) (- 1074))"
    unfolding fl_def Let_def by simp
  then show ?thesis unfolding exponent_int [OF assms] scaled_int .
qed

lemma fl_neg: "fl (- x) = - fl x"
  by (simp add: fl_def Let_def)

lemma fl_0 [simp]: "fl 0 = 0"
  by (simp add: fl_def)

lemma fl_int:
  assumes "\<bar>n\<bar> < 2 ^ 53"
  shows "fl (of_int n) = of_int n"
proof -
  consider "n = 0" | "0 < n" | "n < 0" by linarith
  then show ?thesis
  proof cases
    case 1
    then show ?thesis by simp
  next
    case 2
    then show ?thesis using assms by (intro fl_pos) simp_all
  next
    case 3
    then have "fl (of_int (- n)) = of_int (- n)" using assms by (intro fl_pos) simp_all
    then show ?thesis using fl_neg [of "of_int n"] by simp
  qed
qed

lemma fl_numeral [simp]: "(numeral w :: int) < 2 ^ 53 \<Longrightarrow> fl (numeral w) = numeral w"
  using fl_int [of "numeral w"] by simp

lemma fl_1 [simp]: "fl 1 = 1"
  using fl_int [of 1] by simp

lemma fl_nat: "n < 2 ^ 53 \<Longrightarrow> fl (of_nat n) = of_nat n"
  using fl_int [of "int n"] by simp

subsection \<open>The upstream pump\<close>


lemma stopped_not_recognizing:
  "\<not> isRecognizing (privRequestSession (after exampleCollaborators stopped))"
  by (simp add: example_defs core_defs session_defs cong: run_cong)


lemma streaming_not_ended:
  "\<not> isSpeechEnded (privRequestSession (after exampleCollaborators streaming))"
  by (simp add: example_defs core_defs session_defs cong: run_cong)

lemma stopped_callbacks:
  "callbacks (after exampleCollaborators stopped) = [(5, KMessage), (8, KTimer stoppedPump 7)]"
  by (simp add: example_defs core_defs session_defs cong: run_cong)

text \<open>
  After the stop the timer fires and the upload completes; the cycle that follows finds
  \<open>isRecognizing\<close> false.  Nothing of the pump is left, and the log shows no completion of
  the promise \<^verbatim>\<open>sendAudio\<close> returned: the last entry is the empty audio frame of
  \<^verbatim>\<open>stopRecognizing\<close>.
\<close>

lemma stopped_pump_never_completes:
  "callbacks (after exampleCollaborators (stopped @ [Completes 8 Tick, Completes 7 Sent])) = [(5, KMessage)] \<and>
   waiting (after exampleCollaborators (stopped @ [Completes 8 Tick, Completes 7 Sent])) = [] \<and>
   filter (\<lambda>a. case a of audioSendPromise r \<Rightarrow> True | _ \<Rightarrow> False)
     (trace (after exampleCollaborators (stopped @ [Completes 8 Tick, Completes 7 Sent]))) = []"
  by (simp add: example_defs core_defs session_defs cong: run_cong)

text \<open>
  C3, as the code has it.  When one of the four termination conditions holds at the head
  of a read-and-upload cycle, the cycle does nothing at all: the state of the core is the
  same (no read is asked of the audio node, no callback and no timer is registered) and so
  are the variables of the pump.  The promise \<^verbatim>\<open>sendAudio\<close> returned is therefore left as it
  was; a pending one is not resolved, which is where the code parts from the claim.
\<close>

theorem readAndUploadCycle_terminated_does_nothing:
  assumes "privIsDisposed s \<or> isSpeechEnded (privRequestSession s) \<or>
           \<not> isRecognizing (privRequestSession s) \<or>
           recogNumber (privRequestSession s) \<noteq> startRecogNumber pu"
  shows "readAndUploadCycle E pu s = (pu, s)"
  using assms by (auto simp: readAndUploadCycle_def)

theorem readAndUploadCycle_terminated_witness:
  "\<not> isRecognizing (privRequestSession (after exampleCollaborators stopped)) \<and>
   deferred stoppedPump = None \<and>
   readAndUploadCycle exampleCollaborators stoppedPump (after exampleCollaborators stopped) =
     (stoppedPump, after exampleCollaborators stopped)"
proof -
  have "readAndUploadCycle exampleCollaborators stoppedPump (after exampleCollaborators stopped) =
          (stoppedPump, after exampleCollaborators stopped)"
    using stopped_not_recognizing
    by (intro readAndUploadCycle_terminated_does_nothing) simp
  then show ?thesis
    using stopped_not_recognizing by (simp add: stoppedPump_def)
qed

text \<open>
  C9.  The callback of the audio read receives a chunk with \<open>isEnd = true\<close> while the session
  is not speech-ended: exactly one message is handed to the transport, a Binary frame with
  path audio, the current request id and the null body; \<^verbatim>\<open>onSpeechEnded\<close> sets the flag of
  the session; the promise of the pump is resolved with true; and nothing else changes, so
  no callback and no timer is registered and no further read is asked for.
\<close>

theorem end_of_stream_chunk:
  assumes "\<not> isSpeechEnded (privRequestSession s)"
  shows "onAudioChunk E pu c buffer True s =
     (pu\<lparr>deferred := Some (Inr True)\<rparr>,
      s\<lparr>privRequestSession := (privRequestSession s)\<lparr>isSpeechEnded := True\<rparr>,
        nextFuture := Suc (nextFuture s),
        trace := trace s @
          [Send (nextFuture s) c
             (SpeechConnectionMessage Binary ''audio'' (requestId (privRequestSession s)) None NullBody),
           audioSendPromise (Inr True)]\<rparr>)"
  using assms
  by (simp add: onAudioChunk_def send_def resolvePump_def session_def onSpeechEnded_def emit_def)

theorem end_of_stream_chunk_witness:
  "\<not> isSpeechEnded (privRequestSession (after exampleCollaborators streaming)) \<and>
   deferred (fst (onAudioChunk exampleCollaborators streamingPump (createNoDashGuid 5) [] True
                    (after exampleCollaborators streaming))) = Some (Inr True) \<and>
   callbacks (snd (onAudioChunk exampleCollaborators streamingPump (createNoDashGuid 5) [] True
                    (after exampleCollaborators streaming))) =
     callbacks (after exampleCollaborators streaming) \<and>
   isSpeechEnded (privRequestSession
     (snd (onAudioChunk exampleCollaborators streamingPump (createNoDashGuid 5) [] True
             (after exampleCollaborators streaming))))"
  using streaming_not_ended
    end_of_stream_chunk [of "after exampleCollaborators streaming" exampleCollaborators streamingPump
      "createNoDashGuid 5" "[]"]
  by simp

subsection \<open>What the connection manager and the sends leave alone\<close>

lemma unchanged_refl [simp]: "unchanged s s"
  by (simp add: unchanged_def)

lemma unchanged_trans: "unchanged s t \<Longrightarrow> unchanged t u \<Longrightarrow> unchanged s u"
  by (simp add: unchanged_def)

lemma unchanged_fields:
  assumes "unchanged s s'"
  shows "isSpeechEnded (privRequestSession s') = isSpeechEnded (privRequestSession s)"
    and "isRecognizing (privRequestSession s') = isRecognizing (privRequestSession s)"
    and "requestId (privRequestSession s') = requestId (privRequestSession s)"
    and "sessionId (privRequestSession s') = sessionId (privRequestSession s)"
    and "recogNumber (privRequestSession s') = recogNumber (privRequestSession s)"
    and "bytesSent (privRequestSession s') = bytesSent (privRequestSession s)"
    and "currentTurnAudioOffset (privRequestSession s') = currentTurnAudioOffset (privRequestSession s)"
    and "isContinuousRecognition s' = isContinuousRecognition s"
    and "privIsDisposed s' = privIsDisposed s"
    and "privMustReportEndOfStream s' = privMustReportEndOfStream s"
proof -
  from assms have e: "(privRequestSession s')\<lparr>telemetry := []\<rparr> = (privRequestSession s)\<lparr>telemetry := []\<rparr>"
    by (simp add: unchanged_def)
  show "isSpeechEnded (privRequestSession s') = isSpeechEnded (privRequestSession s)"
    using arg_cong [OF e, of isSpeechEnded] by simp
  show "isRecognizing (privRequestSession s') = isRecognizing (privRequestSession s)"
    using arg_cong [OF e, of isRecognizing] by simp
  show "requestId (privRequestSession s') = requestId (privRequestSession s)"
    using arg_cong [OF e, of requestId] by simp
  show "sessionId (privRequestSession s') = sessionId (privRequestSession s)"
    using arg_cong [OF e, of sessionId] by simp
  show "recogNumber (privRequestSession s') = recogNumber (privRequestSession s)"
    using arg_cong [OF e, of recogNumber] by simp
  show "bytesSent (privRequestSession s') = bytesSent (privRequestSession s)"
    using arg_cong [OF e, of bytesSent] by simp
  show "currentTurnAudioOffset (privRequestSession s') = currentTurnAudioOffset (privRequestSession s)"
    using arg_cong [OF e, of currentTurnAudioOffset] by simp
  show "isContinuousRecognition s' = isContinuousRecognition s"
    using assms by (simp add: unchanged_def isContinuousRecognition_def)
  show "privIsDisposed s' = privIsDisposed s" "privMustReportEndOfStream s' = privMustReportEndOfStream s"
    using assms by (simp_all add: unchanged_def)
qed

lemma unchanged_connectAttempt: "unchanged s (snd (connectAttempt b s))"
  by (simp add: unchanged_def connectAttempt_def Let_def session_def onPreConnectionStart_def
      record_phase_def emit_def newFuture_def newPromise_def await_def)

lemma unchanged_connectImpl: "unchanged s (snd (connectImpl b s))"
  using unchanged_connectAttempt [of "s\<lparr>privConnectionId := None, privConnectionPromise := None\<rparr>" False]
    unchanged_connectAttempt [of s b]
  by (simp add: connectImpl_def unchanged_def split: option.splits)

lemma unchanged_send: "unchanged s (snd (send c m s))"
  by (simp add: unchanged_def send_def)

lemma unchanged_config: "unchanged s (snd (sendSpeechServiceConfig E c s))"
  by (simp add: unchanged_def sendSpeechServiceConfig_def send_def Let_def)

lemma unchanged_context: "unchanged s (snd (sendSpeechContext E c s))"
  by (simp add: unchanged_def sendSpeechContext_def send_def Let_def)

lemma unchanged_contextStep:
  "unchanged s (contextStep (\<lambda>q c. settleConfigured q (Conn c)) E q c s)"
  by (simp add: unchanged_def contextStep_def sendSpeechContext_def send_def Let_def settleConfigured_def await_def)

lemma unchanged_configStep:
  "unchanged s (configStep (\<lambda>q c. settleConfigured q (Conn c)) E q c s)"
  by (simp add: unchanged_def configStep_def contextStep_def sendSpeechServiceConfig_def
       sendSpeechContext_def send_def Let_def settleConfigured_def await_def)

lemma unchanged_configureAttempt: "unchanged s (snd (configureAttempt E s))"
proof -
  obtain p s1 where c: "connectImpl False s = (p, s1)" by (cases "connectImpl False s")
  then have u: "unchanged s s1" using unchanged_connectImpl [of s False] by simp
  have "unchanged s1 (snd (configureAttempt E s))"
    using c unchanged_configStep [of "s1\<lparr>nextConfigured := Suc (nextConfigured s1)\<rparr>" E "nextConfigured s1"]
    by (auto simp: configureAttempt_def newConfigured_def unchanged_def wait_def settleConfigured_def
        split: option.splits outcome.splits)
  with u show ?thesis by (rule unchanged_trans)
qed

lemma unchanged_configureConnection: "unchanged s (snd (configureConnection E s))"
  using unchanged_configureAttempt [of s E]
    unchanged_configureAttempt [of "s\<lparr>privConnectionConfigurationPromise := None\<rparr>" E]
  by (simp add: configureConnection_def unchanged_def split: option.splits)

lemma unchanged_then:
  assumes "\<And>c t. unchanged t (g c t)"
  shows "unchanged s (onSuccessContinueWith q k g s)"
  using assms by (simp add: onSuccessContinueWith_def waitConfigured_def unchanged_def split: option.splits outcome.splits)

lemma unchanged_sendTelemetryData: "unchanged s (sendTelemetryData E s)"
proof -
  let ?s1 = "s\<lparr>privRequestSession := snd (getTelemetry (privRequestSession s))\<rparr>"
  have a: "unchanged s ?s1" by (simp add: unchanged_def getTelemetry_def)
  have b: "unchanged ?s1 (snd (fetchConnection E ?s1))"
    by (simp add: fetchConnection_def unchanged_configureConnection)
  have t: "\<And>d c t. unchanged t (telemetryMessage d c t)"
    by (simp add: telemetryMessage_def unchanged_send)
  have c: "\<And>d q. unchanged (snd (fetchConnection E ?s1))
             (onSuccessContinueWith q (KTelemetry d) (telemetryMessage d) (snd (fetchConnection E ?s1)))"
    by (rule unchanged_then) (rule t)
  show ?thesis
    using a unchanged_trans [OF a unchanged_trans [OF b c]]
    by (auto simp: sendTelemetryData_def Let_def split: prod.splits option.splits)
qed


subsection \<open>The receive loop\<close>

lemma streaming_session:
  "requestId (privRequestSession (after exampleCollaborators streaming)) = createNoDashGuid 3 \<and>
   isContinuousRecognition (after exampleCollaborators streaming)"
  by (simp add: example_defs core_defs session_defs cong: run_cong)

lemma twoTurns_trace:
  "trace (after exampleCollaborators twoTurns) =
     [Fetch (createNoDashGuid 4), Attach, Create (createNoDashGuid 5), Open (createNoDashGuid 5),
      Send 3 (createNoDashGuid 5)
        (SpeechConnectionMessage Text ''speech.config'' (createNoDashGuid 3) (Some ''application/json'')
           (TextBody ''{context:{system:{version:1.7.0},os:{platform:Browser}}}'')),
      SendDone 3 True,
      Send 4 (createNoDashGuid 5)
        (SpeechConnectionMessage Text ''speech.context'' (createNoDashGuid 3) (Some ''application/json'')
           (TextBody ''{}'')),
      SendDone 4 True,
      sessionStarted (createNoDashGuid 2), Read (createNoDashGuid 5), AudioRead,
      ServiceRecognized 10000000, speechEndDetected 20000000 (createNoDashGuid 2),
      Read (createNoDashGuid 5),
      Send 8 (createNoDashGuid 5)
        (SpeechConnectionMessage Text ''telemetry'' (createNoDashGuid 3) (Some ''application/json'')
           (TextBody ''PreConnectionStartAuthCompletedAudioSourceAttachCompletedPreConnectionStartConnectionEstablishCompleted'')),
      Send 9 (createNoDashGuid 5)
        (SpeechConnectionMessage Text ''speech.context'' (createNoDashGuid 6) (Some ''application/json'')
           (TextBody ''{}'')),
      processTypeSpecificMessages (turnEndMessage ''turn.end'' (createNoDashGuid 3)),
      Read (createNoDashGuid 5)]"
  by (simp add: example_defs core_defs session_defs cong: run_cong)

lemma twoTurns_state:
  "callbacks (after exampleCollaborators twoTurns) =
     [(6, KChunk streamingPump (createNoDashGuid 5)), (10, KMessage)] \<and>
   requestId (privRequestSession (after exampleCollaborators twoTurns)) = createNoDashGuid 6 \<and>
   currentTurnAudioOffset (privRequestSession (after exampleCollaborators twoTurns)) = 10000000 \<and>
   isContinuousRecognition (after exampleCollaborators twoTurns)"
  by (simp add: example_defs core_defs session_defs cong: run_cong)

text \<open>
  C4, as the code has it.  A message with the current request id and the path
  \<^verbatim>\<open>turn.end\<close> (compared in lower case), received in continuous mode while the speech has
  not ended, leaves the \<^verbatim>\<open>switch\<close> through \<^verbatim>\<open>default\<close>: the last thing the callback does
  before it reads on is to hand this very message to \<^verbatim>\<open>processTypeSpecificMessages\<close>.
  The claim says a \<^verbatim>\<open>turn.end\<close> message never reaches the hook.
\<close>

theorem turn_end_reaches_subclass_hook:
  assumes "toLowerCase (msgRequestId m) = toLowerCase (requestId (privRequestSession s))"
    and "toLowerCase (path m) = ''turn.end''"
    and "isContinuousRecognition s"
    and "\<not> isSpeechEnded (privRequestSession s)"
  shows "\<exists>s'. handleMessage E m s = Next s' \<and> last (trace s') = processTypeSpecificMessages m"
proof -
  let ?s1 = "sendTelemetryData E s"
  have u: "unchanged s ?s1" by (rule unchanged_sendTelemetryData)
  have e: "\<not> isSpeechEnded (privRequestSession ?s1)" and c: "isContinuousRecognition ?s1"
    using assms(3,4) unchanged_fields [OF u] by simp_all
  have "\<exists>s'. onTurnEnd E m s = Next s' \<and> last (trace s') = processTypeSpecificMessages m"
    using e c
    by (simp add: onTurnEnd_def Let_def session_def onServiceTurnEndResponse_def
        isContinuousRecognition_def emit_def split: prod.splits)
  then show ?thesis
    using assms(1,2) by (simp add: handleMessage_def)
qed


theorem turn_end_reaches_subclass_hook_witness:
  "toLowerCase (msgRequestId (turnEndMessage ''Turn.End'' (createNoDashGuid 3))) =
     toLowerCase (requestId (privRequestSession (after exampleCollaborators streaming))) \<and>
   toLowerCase (path (turnEndMessage ''Turn.End'' (createNoDashGuid 3))) = ''turn.end'' \<and>
   isContinuousRecognition (after exampleCollaborators streaming) \<and>
   \<not> isSpeechEnded (privRequestSession (after exampleCollaborators streaming)) \<and>
   (\<exists>s'. handleMessage exampleCollaborators (turnEndMessage ''Turn.End'' (createNoDashGuid 3))
            (after exampleCollaborators streaming) = Next s' \<and>
         last (trace s') = processTypeSpecificMessages (turnEndMessage ''Turn.End'' (createNoDashGuid 3)))"
proof -
  have h1: "toLowerCase (msgRequestId (turnEndMessage ''Turn.End'' (createNoDashGuid 3))) =
     toLowerCase (requestId (privRequestSession (after exampleCollaborators streaming)))"
    using streaming_session by (simp add: turnEndMessage_def)
  have "toLowerCase ''Turn.End'' = ''turn.end''"
    by code_simp
  then have h2: "toLowerCase (path (turnEndMessage ''Turn.End'' (createNoDashGuid 3))) = ''turn.end''"
    by (simp add: turnEndMessage_def)
  have h3: "isContinuousRecognition (after exampleCollaborators streaming)"
    using streaming_session by simp
  from turn_end_reaches_subclass_hook [OF h1 h2 h3 streaming_not_ended] h1 h2 h3 streaming_not_ended
  show ?thesis by blast
qed

text \<open>
  A \<^verbatim>\<open>speech.enddetected\<close> message with the current request id whose text the parser
  reads.  The text given to the parser is the body, or the literal \<^verbatim>\<open>{ Offset: 0 }\<close> when
  the body is empty.  With \<open>Offset\<close> the parsed offset: in continuous mode
  \<^verbatim>\<open>onServiceRecognized\<close> is called once, with \<open>Offset\<close> plus the \<open>currentTurnAudioOffset\<close> of
  the session; in single-shot mode it is not called.  When the recognizer has a
  \<^verbatim>\<open>speechEndDetected\<close> handler it is then called with \<open>Offset\<close> plus the
  \<open>currentTurnAudioOffset\<close> the session has after that call, and with the session id.
  The loop reads on.
\<close>

lemma speech_end_detected_offsets:
  assumes "toLowerCase (msgRequestId m) = toLowerCase (requestId (privRequestSession s))"
    and "toLowerCase (path m) = ''speech.enddetected''"
    and "SpeechDetected_fromJSON E (if textBody m = [] then ''{ Offset: 0 }'' else textBody m) = Some Offset"
  shows "\<exists>s'. handleMessage E m s = Next s' \<and>
     privRequestSession s' =
       (if isContinuousRecognition s
        then onServiceRecognized (Offset + currentTurnAudioOffset (privRequestSession s)) (privRequestSession s)
        else privRequestSession s) \<and>
     trace s' = trace s @
       (if isContinuousRecognition s
        then [ServiceRecognized (Offset + currentTurnAudioOffset (privRequestSession s))] else []) @
       (if hasSpeechEndDetected E
        then [speechEndDetected (Offset + currentTurnAudioOffset (privRequestSession s'))
                (sessionId (privRequestSession s))]
        else [])"
proof -
  have "handleMessage E m s = onSpeechEndDetected E m s"
    using assms(1,2) by (simp add: handleMessage_def)
  then show ?thesis
    using assms(3)
    by (cases "textBody m = []")
       (simp_all add: onSpeechEndDetected_def Let_def session_def emit_def onServiceRecognized_def)
qed

text \<open>
  In the second turn of the example the service reports the end of speech at offset
  10000000 again, and \<^verbatim>\<open>onServiceRecognized\<close> is called with 20000000.
\<close>

lemma second_turn_argument:
  "serviceRecognizedCalls (trace (after exampleCollaborators twoTurns)) = [10000000] \<and>
   serviceRecognizedCalls (trace (after exampleCollaborators secondEndDetected)) = [10000000, 20000000]"
  by (simp add: example_defs core_defs session_defs cong: run_cong)

text \<open>The literal is not a JSON document: the name of its member is not quoted.\<close>

lemma strict_rejects: "strictOffsetOf ''{ Offset: 0 }'' = None"
  by (simp add: strictOffsetOf_def expect_def isSpace_def)

lemma strict_accepts: "strictOffsetOf ([CHR ''{'', CHR 0x22] @ ''Offset'' @ [CHR 0x22] @ '':10000000}'') = Some 10000000"
  by (simp add: strictOffsetOf_def expect_def isSpace_def isDigit_def parseInt_def)

text \<open>
  C8, as the code has it, for a message with an empty body.  The handler gives the parser
  the literal \<^verbatim>\<open>{ Offset: 0 }\<close>.  A parser of JSON rejects it, and then the handler throws:
  \<^verbatim>\<open>onServiceRecognized\<close> is not called, no \<^verbatim>\<open>speechEndDetected\<close> event is raised, the state
  is as before, and the receive loop asks for no further message.  The claim says the
  offset defaults to 0, which is what the literal is there for.
\<close>

theorem speech_end_detected_empty_body_throws:
  assumes "toLowerCase (msgRequestId m) = toLowerCase (requestId (privRequestSession s))"
    and "toLowerCase (path m) = ''speech.enddetected''"
    and "textBody m = []"
    and "SpeechDetected_fromJSON E ''{ Offset: 0 }'' = None"
    and "isRecognizing (privRequestSession s)" and "\<not> privIsDisposed s"
  shows "handleMessage E m s = Thrown s \<and> onMessage E (Message (Some m)) s = s"
proof -
  have "handleMessage E m s = Thrown s"
    using assms(1-4) by (simp add: handleMessage_def onSpeechEndDetected_def)
  then show ?thesis using assms(5,6) by (simp add: onMessage_def)
qed

lemma streaming_strict:
  "requestId (privRequestSession (after strictCollaborators streaming)) = createNoDashGuid 3 \<and>
   isRecognizing (privRequestSession (after strictCollaborators streaming)) \<and>
   \<not> privIsDisposed (after strictCollaborators streaming) \<and>
   isContinuousRecognition (after strictCollaborators streaming) \<and>
   callbacks (after strictCollaborators streaming) =
     [(5, KMessage), (6, KChunk streamingPump (createNoDashGuid 5))]"
  by (simp add: strictCollaborators_def example_defs core_defs session_defs cong: run_cong)

theorem speech_end_detected_empty_body_witness:
  "toLowerCase (msgRequestId (emptyEndDetected (createNoDashGuid 3))) =
     toLowerCase (requestId (privRequestSession (after strictCollaborators streaming))) \<and>
   toLowerCase (path (emptyEndDetected (createNoDashGuid 3))) = ''speech.enddetected'' \<and>
   textBody (emptyEndDetected (createNoDashGuid 3)) = [] \<and>
   SpeechDetected_fromJSON strictCollaborators ''{ Offset: 0 }'' = None \<and>
   isRecognizing (privRequestSession (after strictCollaborators streaming)) \<and>
   \<not> privIsDisposed (after strictCollaborators streaming) \<and>
   handleMessage strictCollaborators (emptyEndDetected (createNoDashGuid 3))
     (after strictCollaborators streaming) = Thrown (after strictCollaborators streaming) \<and>
   onMessage strictCollaborators (Message (Some (emptyEndDetected (createNoDashGuid 3))))
     (after strictCollaborators streaming) = after strictCollaborators streaming"
proof -
  have h1: "toLowerCase (msgRequestId (emptyEndDetected (createNoDashGuid 3))) =
     toLowerCase (requestId (privRequestSession (after strictCollaborators streaming)))"
    using streaming_strict by (simp add: emptyEndDetected_def)
  have h2: "toLowerCase (path (emptyEndDetected (createNoDashGuid 3))) = ''speech.enddetected''"
    by (simp add: emptyEndDetected_def toLowerCase_def)
  have h3: "textBody (emptyEndDetected (createNoDashGuid 3)) = []"
    by (simp add: emptyEndDetected_def textBody_def)
  have h4: "SpeechDetected_fromJSON strictCollaborators ''{ Offset: 0 }'' = None"
    using strict_rejects by (simp add: strictCollaborators_def)
  have h5: "isRecognizing (privRequestSession (after strictCollaborators streaming))"
    and h6: "\<not> privIsDisposed (after strictCollaborators streaming)"
    using streaming_strict by simp_all
  from speech_end_detected_empty_body_throws [OF h1 h2 h3 h4 h5 h6] h1 h2 h3 h4 h5 h6
  show ?thesis by blast
qed


subsection \<open>The connection manager\<close>

lemma disconnect_undefined:
  assumes "privConnectionPromise s = None" "\<not> isRecognizing (privRequestSession s)"
  shows "disconnect E s = Inl (TypeError ''privConnectionPromise is undefined'')"
  using assms by (simp add: disconnect_def cancelRecognitionLocal_def)

lemma untouched_new: "untouched newServiceRecognizerBase"
  by (simp add: untouched_def newServiceRecognizerBase_def newRequestSession_def)

lemma untouched_step:
  assumes "untouched s" "beforeConnecting ev"
  shows "step E ev s = Inl (TypeError ''privConnectionPromise is undefined'') \<or>
         (\<exists>s'. step E ev s = Inr s' \<and> untouched s')"
  using assms
  by (cases ev)
     (auto simp: untouched_def beforeConnecting_def step_def stopRecognizing_def disconnect_undefined
        dispose_def complete_def)

lemma untouched_run:
  assumes "untouched s" "list_all beforeConnecting evs"
  shows "run E (evs @ [CallDisconnect]) s = Inl (TypeError ''privConnectionPromise is undefined'')"
  using assms
proof (induction evs arbitrary: s)
  case Nil
  then show ?case by (simp add: step_def disconnect_undefined untouched_def)
next
  case (Cons ev evs)
  from Cons.prems have b: "beforeConnecting ev" and r: "list_all beforeConnecting evs" by simp_all
  from untouched_step [OF Cons.prems(1) b, of E] show ?case
  proof
    assume "step E ev s = Inl (TypeError ''privConnectionPromise is undefined'')"
    then show ?thesis by simp
  next
    assume "\<exists>s'. step E ev s = Inr s' \<and> untouched s'"
    then obtain s' where s': "step E ev s = Inr s'" "untouched s'" by blast
    with Cons.IH [OF s'(2) r] show ?thesis by simp
  qed
qed

text \<open>
  C10.  As long as neither \<^verbatim>\<open>recognize\<close> nor \<^verbatim>\<open>connect\<close> has been called on the constructed
  core, whatever else has happened to it, a call of \<^verbatim>\<open>disconnect\<close> does not complete: the
  local cancellation finds nothing to cancel, and reading \<^verbatim>\<open>result()\<close> of the undefined
  connection promise throws.
\<close>

theorem disconnect_before_connecting_throws:
  assumes "list_all beforeConnecting evs"
  shows "run E (evs @ [CallDisconnect]) newServiceRecognizerBase =
           Inl (TypeError ''privConnectionPromise is undefined'')"
  using untouched_run [OF untouched_new assms] .

theorem disconnect_before_connecting_witness:
  "list_all beforeConnecting [CallStopRecognizing, TimeIs 5, CallDispose None] \<and>
   run exampleCollaborators ([CallStopRecognizing, TimeIs 5, CallDispose None] @ [CallDisconnect])
     newServiceRecognizerBase = Inl (TypeError ''privConnectionPromise is undefined'')"
proof -
  have h: "list_all beforeConnecting [CallStopRecognizing, TimeIs 5, CallDispose None]"
    by (simp add: beforeConnecting_def)
  from disconnect_before_connecting_throws [OF h] h show ?thesis by blast
qed

text \<open>
  C7.  While the stored connection promise is pending, or resolved with a connection that
  is not Disconnected, \<^verbatim>\<open>connectImpl\<close> returns that promise and changes nothing, call
  after call, whatever its argument.  When the stored promise is completed with an error or
  with a Disconnected connection (and only then, by the first part), the stored promise and
  the connection id are cleared and a new attempt begins: a new promise is made, stored and
  returned, the old results are kept, and the authentication is asked with \<^verbatim>\<open>fetch\<close>.
  \<^verbatim>\<open>configureConnection\<close> treats its own stored promise the same way.
\<close>

theorem connectImpl_idempotent:
  "(privConnectionPromise s = Some p \<and> \<not> completedUnusable s p \<longrightarrow>
      connectImpl b s = (p, s) \<and> connectImpl b' (snd (connectImpl b s)) = (p, s)) \<and>
   (privConnectionPromise s = Some p \<and> completedUnusable s p \<longrightarrow>
      connectImpl b s = connectAttempt False (s\<lparr>privConnectionId := None, privConnectionPromise := None\<rparr>) \<and>
      fst (connectImpl b s) = nextPromise s \<and>
      privConnectionPromise (snd (connectImpl b s)) = Some (nextPromise s) \<and>
      settled (snd (connectImpl b s)) = settled s \<and>
      trace (snd (connectImpl b s)) = trace s @ [Fetch (createNoDashGuid (guids s))] \<and>
      callbacks (snd (connectImpl b s)) = callbacks s @ [(nextFuture s, KAuth (nextPromise s) False)]) \<and>
   completedUnusable s p =
     ((\<exists>e. settled s p = Some (Failed e)) \<or>
      (\<exists>c. settled s p = Some (Conn c) \<and> connectionState s c = Disconnected)) \<and>
   (privConnectionConfigurationPromise s = Some q \<and> \<not> configuredUnusable s q \<longrightarrow>
      configureConnection E s = (q, s))"
proof -
  have a: "privConnectionPromise s = Some p \<and> \<not> completedUnusable s p \<longrightarrow>
      connectImpl b s = (p, s) \<and> connectImpl b' (snd (connectImpl b s)) = (p, s)"
    by (simp add: connectImpl_def)
  have b: "privConnectionPromise s = Some p \<and> completedUnusable s p \<longrightarrow>
      connectImpl b s = connectAttempt False (s\<lparr>privConnectionId := None, privConnectionPromise := None\<rparr>) \<and>
      fst (connectImpl b s) = nextPromise s \<and>
      privConnectionPromise (snd (connectImpl b s)) = Some (nextPromise s) \<and>
      settled (snd (connectImpl b s)) = settled s \<and>
      trace (snd (connectImpl b s)) = trace s @ [Fetch (createNoDashGuid (guids s))] \<and>
      callbacks (snd (connectImpl b s)) = callbacks s @ [(nextFuture s, KAuth (nextPromise s) False)]"
    by (simp add: connectImpl_def connectAttempt_def Let_def session_def emit_def newFuture_def
        newPromise_def await_def)
  have c: "completedUnusable s p =
     ((\<exists>e. settled s p = Some (Failed e)) \<or>
      (\<exists>c. settled s p = Some (Conn c) \<and> connectionState s c = Disconnected))"
    by (auto simp: completedUnusable_def split: option.splits outcome.splits)
  have d: "privConnectionConfigurationPromise s = Some q \<and> \<not> configuredUnusable s q \<longrightarrow>
      configureConnection E s = (q, s)"
    by (simp add: configureConnection_def)
  from a b c d show ?thesis by blast
qed

lemma streaming_promises:
  "privConnectionPromise (after exampleCollaborators streaming) = Some 0 \<and>
   privConnectionConfigurationPromise (after exampleCollaborators streaming) = Some 0 \<and>
   settled (after exampleCollaborators streaming) 0 = Some (Conn (createNoDashGuid 5)) \<and>
   configured (after exampleCollaborators streaming) 0 = Some (Conn (createNoDashGuid 5)) \<and>
   connectionState (after exampleCollaborators streaming) (createNoDashGuid 5) = StateNone \<and>
   nextPromise (after exampleCollaborators streaming) = 1"
  by (simp add: example_defs core_defs session_defs cong: run_cong)

lemma dropped_promises:
  "privConnectionPromise (after exampleCollaborators dropped) = Some 0 \<and>
   settled (after exampleCollaborators dropped) 0 = Some (Conn (createNoDashGuid 5)) \<and>
   connectionState (after exampleCollaborators dropped) (createNoDashGuid 5) = Disconnected \<and>
   nextPromise (after exampleCollaborators dropped) = 1"
  by (simp add: example_defs core_defs session_defs cong: run_cong)

theorem connectImpl_idempotent_witness:
  "privConnectionPromise (after exampleCollaborators streaming) = Some 0 \<and>
   \<not> completedUnusable (after exampleCollaborators streaming) 0 \<and>
   connectImpl False (after exampleCollaborators streaming) = (0, after exampleCollaborators streaming) \<and>
   privConnectionConfigurationPromise (after exampleCollaborators streaming) = Some 0 \<and>
   \<not> configuredUnusable (after exampleCollaborators streaming) 0 \<and>
   configureConnection exampleCollaborators (after exampleCollaborators streaming) =
     (0, after exampleCollaborators streaming) \<and>
   privConnectionPromise (after exampleCollaborators dropped) = Some 0 \<and>
   completedUnusable (after exampleCollaborators dropped) 0 \<and>
   fst (connectImpl False (after exampleCollaborators dropped)) = 1"
proof -
  have u0: "\<not> completedUnusable (after exampleCollaborators streaming) 0"
    and u1: "\<not> configuredUnusable (after exampleCollaborators streaming) 0"
    using streaming_promises by (simp_all add: completedUnusable_def configuredUnusable_def)
  have d0: "completedUnusable (after exampleCollaborators dropped) 0"
    using dropped_promises by (simp add: completedUnusable_def)
  have p0: "privConnectionPromise (after exampleCollaborators streaming) = Some 0"
    and q1: "privConnectionConfigurationPromise (after exampleCollaborators streaming) = Some 0"
    using streaming_promises by simp_all
  have pd: "privConnectionPromise (after exampleCollaborators dropped) = Some 0"
    and nd: "nextPromise (after exampleCollaborators dropped) = 1"
    using dropped_promises by simp_all
  have a: "connectImpl False (after exampleCollaborators streaming) = (0, after exampleCollaborators streaming)"
    using connectImpl_idempotent [of "after exampleCollaborators streaming" 0 False False 0 exampleCollaborators]
      p0 u0 by blast
  have b: "configureConnection exampleCollaborators (after exampleCollaborators streaming) =
     (0, after exampleCollaborators streaming)"
    using connectImpl_idempotent [of "after exampleCollaborators streaming" 0 False False 0 exampleCollaborators]
      q1 u1 by blast
  have "fst (connectImpl False (after exampleCollaborators dropped)) =
          nextPromise (after exampleCollaborators dropped)"
    using connectImpl_idempotent [of "after exampleCollaborators dropped" 0 False False 1 exampleCollaborators]
      pd d0 by blast
  then have c: "fst (connectImpl False (after exampleCollaborators dropped)) = 1"
    using nd by simp
  from p0 u0 a q1 u1 b pd d0 c show ?thesis by blast
qed

text \<open>
  The continuation of \<^verbatim>\<open>open\<close>.  When the \<^verbatim>\<open>open\<close> of a first attempt answers 403, the stored
  connection promise is the promise \<open>p\<close> of that very attempt and is pending, so the call
  \<^verbatim>\<open>this.connectImpl(true)\<close> takes the branch that returns the stored promise: no id is
  minted, \<^verbatim>\<open>fetchOnExpiry\<close> is not called, and \<open>p\<close> is made to complete when \<open>p\<close>
  completes.
\<close>

lemma forbidden_open_waits_for_its_own_promise:
  assumes "privConnectionPromise s = Some p" and "settled s p = None"
  shows "onOpen E p False c (OpenResponse 403 reason) s = wait p (KFollow p) s"
  using assms by (simp add: onOpen_def connectImpl_def completedUnusable_def)

lemma forbidden_state:
  "privConnectionPromise (after exampleCollaborators forbidden) = Some 0 \<and>
   settled (after exampleCollaborators forbidden) 0 = None \<and>
   callbacks (after exampleCollaborators forbidden) = [(1, KOpen 0 False (createNoDashGuid 3))] \<and>
   waiting (after exampleCollaborators forbidden) = [] \<and>
   nextFuture (after exampleCollaborators forbidden) = 2 \<and>
   trace (after exampleCollaborators forbidden) =
     [Fetch (createNoDashGuid 2), Create (createNoDashGuid 3), Open (createNoDashGuid 3)]"
  by (simp add: example_defs core_defs session_defs cong: run_cong)

lemma refused_state:
  "privConnectionPromise (after exampleCollaborators refused) = Some 0 \<and>
   settled (after exampleCollaborators refused) 0 = None \<and>
   callbacks (after exampleCollaborators refused) = [] \<and>
   waiting (after exampleCollaborators refused) = [(0, KFollow 0)] \<and>
   trace (after exampleCollaborators refused) =
     [Fetch (createNoDashGuid 2), Create (createNoDashGuid 3), Open (createNoDashGuid 3)]"
  by (simp add: example_defs core_defs session_defs cong: run_cong)

lemma forbidden_open_example:
  "privConnectionPromise (after exampleCollaborators forbidden) = Some 0 \<and>
   settled (after exampleCollaborators forbidden) 0 = None \<and>
   onOpen exampleCollaborators 0 False (createNoDashGuid 3) (OpenResponse 403 ''Forbidden'')
       (after exampleCollaborators forbidden) =
     wait 0 (KFollow 0) (after exampleCollaborators forbidden) \<and>
   trace (wait 0 (KFollow 0) (after exampleCollaborators forbidden)) =
     [Fetch (createNoDashGuid 2), Create (createNoDashGuid 3), Open (createNoDashGuid 3)]"
proof -
  have h1: "privConnectionPromise (after exampleCollaborators forbidden) = Some 0"
    and h2: "settled (after exampleCollaborators forbidden) 0 = None"
    using forbidden_state by simp_all
  from forbidden_open_waits_for_its_own_promise [OF h1 h2] h1 h2 forbidden_state
  show ?thesis by (simp add: wait_def)
qed

text \<open>
  After the refused attempt nothing is pending any more: whatever future the collaborators
  complete, the core stays as it is, with its connection promise unresolved.
\<close>

lemma refused_is_final: "complete E f v (after exampleCollaborators refused) = after exampleCollaborators refused"
proof -
  have "nextFuture (after exampleCollaborators refused) = 2 \<and>
        completed (after exampleCollaborators refused) 0 \<noteq> None \<and>
        completed (after exampleCollaborators refused) 1 \<noteq> None"
    by (simp add: example_defs core_defs session_defs cong: run_cong)
  then have "\<not> (f < nextFuture (after exampleCollaborators refused) \<and>
                completed (after exampleCollaborators refused) f = None)"
    by (cases "f = 0"; cases "f = 1") auto
  then show ?thesis
    unfolding complete_def by (rule if_not_P)
qed

subsection \<open>The configurator\<close>

lemma guid_3_6: "createNoDashGuid 3 \<noteq> createNoDashGuid 6"
  by code_simp

lemma quiet_refl [simp]: "quiet c s s"
  by (simp add: quiet_def)

lemma quiet_trans: "quiet c s t \<Longrightarrow> quiet c t u \<Longrightarrow> quiet c s u"
  by (simp add: quiet_def)

lemma quiet_usable: "quiet c s t \<Longrightarrow> usable q s \<Longrightarrow> usable q t"
  unfolding quiet_def usable_def configuredUnusable_def
  by (auto split: option.splits outcome.splits)

lemma usable_fetch: "usable q s \<Longrightarrow> fetchConnection E s = (q, s)"
  by (simp add: usable_def fetchConnection_def configureConnection_def)

lemma configSends_append [simp]: "configSends c (xs @ ys) = configSends c xs @ configSends c ys"
  by (simp add: configSends_def)

lemma quiet_telemetryMessage: "quiet c s (telemetryMessage d k s)"
  by (simp add: quiet_def telemetryMessage_def send_def configSends_def isConfigOn_def)

lemma quiet_speechContextMessage: "quiet c s (speechContextMessage E k s)"
  by (simp add: quiet_def speechContextMessage_def sendSpeechContext_def send_def configSends_def
      isConfigOn_def Let_def)

lemma quiet_then:
  assumes "\<And>k t. quiet c t (g k t)"
  shows "quiet c s (onSuccessContinueWith q w g s)"
  using assms
  by (simp add: onSuccessContinueWith_def waitConfigured_def quiet_def split: option.splits outcome.splits)

lemma quiet_sendTelemetryData:
  assumes "usable q s"
  shows "quiet c s (sendTelemetryData E s)"
proof -
  let ?s1 = "s\<lparr>privRequestSession := snd (getTelemetry (privRequestSession s))\<rparr>"
  have a: "quiet c s ?s1" by (simp add: quiet_def)
  then have u: "usable q ?s1" using assms by (rule quiet_usable)
  have b: "\<And>d. quiet c ?s1 (onSuccessContinueWith q (KTelemetry d) (telemetryMessage d) ?s1)"
    by (rule quiet_then) (rule quiet_telemetryMessage)
  show ?thesis
    using a quiet_trans [OF a b] usable_fetch [OF u, of E]
    by (auto simp: sendTelemetryData_def Let_def split: prod.splits option.splits)
qed

lemma quiet_cancelRecognitionLocal:
  assumes "usable q s"
  shows "quiet c s (cancelRecognitionLocal E r e x s)"
proof -
  let ?s1 = "session onStopRecognizing s"
  have a: "quiet c s ?s1" by (simp add: quiet_def session_def)
  then have u: "usable q ?s1" using assms by (rule quiet_usable)
  have b: "quiet c ?s1 (sendTelemetryData E ?s1)" using u by (rule quiet_sendTelemetryData)
  have d: "\<And>t a. quiet c t (emit (cancelRecognition (sessionId (privRequestSession t)) (requestId (privRequestSession t)) r e x) t)"
    by (simp add: quiet_def emit_def configSends_def isConfigOn_def)
  show ?thesis
    using quiet_trans [OF quiet_trans [OF a b] d]
    by (simp add: cancelRecognitionLocal_def Let_def)
qed

lemma quiet_onTurnEnd:
  assumes "usable q s"
  shows "quiet c s (flowCore (onTurnEnd E m s))"
proof -
  let ?s1 = "sendTelemetryData E s"
  have a: "quiet c s ?s1" using assms by (rule quiet_sendTelemetryData)
  then have u1: "usable q ?s1" using assms by (rule quiet_usable)
  let ?s2 = "if isSpeechEnded (privRequestSession ?s1) \<and> privMustReportEndOfStream ?s1 then
                  cancelRecognitionLocal E EndOfStream NoError None
                    (?s1\<lparr>privMustReportEndOfStream := False\<rparr>)
                else ?s1"
  have "quiet c ?s1 (?s1\<lparr>privMustReportEndOfStream := False\<rparr>)" by (simp add: quiet_def)
  moreover from this u1 have "usable q (?s1\<lparr>privMustReportEndOfStream := False\<rparr>)" by (rule quiet_usable)
  then have "quiet c (?s1\<lparr>privMustReportEndOfStream := False\<rparr>)
               (cancelRecognitionLocal E EndOfStream NoError None (?s1\<lparr>privMustReportEndOfStream := False\<rparr>))"
    by (rule quiet_cancelRecognitionLocal)
  ultimately have b: "quiet c ?s1 ?s2"
    by (auto intro: quiet_trans)
  let ?s3 = "session (onServiceTurnEndResponse (isContinuousRecognition ?s2) (createNoDashGuid (guids ?s2)))
                 (?s2\<lparr>guids := Suc (guids ?s2)\<rparr>)"
  have d: "quiet c ?s2 ?s3" by (simp add: quiet_def session_def)
  have s3: "quiet c s ?s3" using a b d by (blast intro: quiet_trans)
  then have u3: "usable q ?s3" using assms by (rule quiet_usable)
  have e: "quiet c ?s3 (onSuccessContinueWith q KSpeechContext (speechContextMessage E) ?s3)"
    by (rule quiet_then) (rule quiet_speechContextMessage)
  have f: "\<And>t a. quiet c t (emit (sessionStopped a) t)" "\<And>t. quiet c t (emit (processTypeSpecificMessages m) t)"
    by (simp_all add: quiet_def emit_def configSends_def isConfigOn_def)
  have g: "quiet c ?s3 (flowCore (onTurnEnd E m s))"
    using usable_fetch [OF u3, of E] e f quiet_trans [OF e f(2)]
    by (simp add: onTurnEnd_def Let_def flowCore_def)
  from s3 g show ?thesis by (rule quiet_trans)
qed

lemma quiet_handleMessage:
  assumes "usable q s"
  shows "quiet c s (flowCore (handleMessage E m s))"
proof -
  have a: "quiet c s (flowCore (onSpeechStartDetected E m s))"
    by (simp add: onSpeechStartDetected_def flowCore_def quiet_def emit_def configSends_def isConfigOn_def
        split: option.splits)
  have b: "quiet c s (flowCore (onSpeechEndDetected E m s))"
    by (simp add: onSpeechEndDetected_def flowCore_def quiet_def emit_def session_def configSends_def
        isConfigOn_def Let_def split: option.splits)
  have d: "quiet c s (emit (processTypeSpecificMessages m) s)" "quiet c s (s\<lparr>privMustReportEndOfStream := True\<rparr>)"
    by (simp_all add: quiet_def emit_def configSends_def isConfigOn_def)
  show ?thesis
    using a b d quiet_onTurnEnd [OF assms, of c E m]
    by (simp add: handleMessage_def Let_def flowCore_def)
qed

lemma configSends_connectImpl:
  "configSends c (trace (snd (connectImpl b s))) = configSends c (trace s)"
  by (simp add: connectImpl_def connectAttempt_def emit_def newFuture_def newPromise_def await_def
      session_def Let_def configSends_def isConfigOn_def split: option.splits)

lemma configSends_configStep:
  "length (configSends c (trace (configStep (\<lambda>q c. settleConfigured q (Conn c)) E q k s)))
     \<le> Suc (length (configSends c (trace s)))"
  by (simp add: configStep_def contextStep_def sendSpeechServiceConfig_def sendSpeechContext_def
      send_def settleConfigured_def await_def Let_def configSends_def isConfigOn_def)

lemma configSends_configureAttempt:
  "length (configSends c (trace (snd (configureAttempt E s)))) \<le> Suc (length (configSends c (trace s)))"
proof -
  obtain p s1 where ci: "connectImpl False s = (p, s1)" by (cases "connectImpl False s")
  then have t1: "configSends c (trace s1) = configSends c (trace s)"
    using configSends_connectImpl [of c False s] by simp
  let ?s2 = "s1\<lparr>nextConfigured := Suc (nextConfigured s1)\<rparr>"
  have "length (configSends c (trace (snd (configureAttempt E s)))) \<le> Suc (length (configSends c (trace s1)))"
  proof (cases "settled s1 p")
    case None
    then show ?thesis using ci by (simp add: configureAttempt_def newConfigured_def wait_def)
  next
    case (Some v)
    show ?thesis
    proof (cases v)
      case (Conn k)
      then show ?thesis
        using ci Some configSends_configStep [of c E "nextConfigured s1" k ?s2]
        by (simp add: configureAttempt_def newConfigured_def)
    qed (use ci Some in \<open>simp_all add: configureAttempt_def newConfigured_def settleConfigured_def\<close>)
  qed
  with t1 show ?thesis by simp
qed

text \<open>
  One call of \<^verbatim>\<open>configureConnection\<close> hands at most one
  \<^verbatim>\<open>speech.config\<close> to the transport on any connection.  While a usable configured-connection
  promise is stored (pending, or resolved with a connection that is not Disconnected) the
  call returns that promise and sends nothing, and the handling of a message of the
  service, \<^verbatim>\<open>turn.end\<close> in continuous mode included, sends no \<^verbatim>\<open>speech.config\<close>.  A call of
  \<^verbatim>\<open>recognize\<close> clears the stored promise, so the configuration that follows sends
  \<^verbatim>\<open>speech.config\<close> again, whatever the connection.
\<close>

lemma configureConnection_sends_at_most_one:
  "length (configSends c (trace (snd (configureConnection E s)))) \<le> Suc (length (configSends c (trace s))) \<and>
   (privConnectionConfigurationPromise s = Some q \<and> \<not> configuredUnusable s q \<longrightarrow>
      configureConnection E s = (q, s) \<and>
      configSends c (trace (flowCore (handleMessage E m s))) = configSends c (trace s)) \<and>
   privConnectionConfigurationPromise (recognize E recoMode s) = None"
proof -
  have a: "length (configSends c (trace (snd (configureConnection E s)))) \<le> Suc (length (configSends c (trace s)))"
    using configSends_configureAttempt [of c E s]
      configSends_configureAttempt [of c E "s\<lparr>privConnectionConfigurationPromise := None\<rparr>"]
    by (simp add: configureConnection_def split: option.splits)
  have b: "privConnectionConfigurationPromise s = Some q \<and> \<not> configuredUnusable s q \<longrightarrow>
      configureConnection E s = (q, s) \<and>
      configSends c (trace (flowCore (handleMessage E m s))) = configSends c (trace s)"
    using quiet_handleMessage [of q s c E m]
    by (simp add: usable_def quiet_def configureConnection_def)
  have d: "privConnectionConfigurationPromise (recognize E recoMode s) = None"
    by (simp add: recognize_def connectImpl_def connectAttempt_def Let_def session_def emit_def
        newFuture_def newPromise_def await_def split: option.splits prod.splits)
  from a b d show ?thesis by blast
qed


lemma streaming_config:
  "privConnectionConfigurationPromise (after exampleCollaborators streaming) = Some 0 \<and>
   configured (after exampleCollaborators streaming) 0 = Some (Conn (createNoDashGuid 5)) \<and>
   connectionState (after exampleCollaborators streaming) (createNoDashGuid 5) = StateNone \<and>
   length (configSends (createNoDashGuid 5) (trace (after exampleCollaborators streaming))) = 1"
  by (simp add: example_defs core_defs session_defs cong: run_cong)

lemma configureConnection_sends_at_most_one_example:
  "privConnectionConfigurationPromise (after exampleCollaborators streaming) = Some 0 \<and>
   \<not> configuredUnusable (after exampleCollaborators streaming) 0 \<and>
   configureConnection exampleCollaborators (after exampleCollaborators streaming) =
     (0, after exampleCollaborators streaming) \<and>
   length (configSends (createNoDashGuid 5)
     (trace (flowCore (handleMessage exampleCollaborators (turnEndMessage ''turn.end'' (createNoDashGuid 3))
        (after exampleCollaborators streaming))))) = 1"
proof -
  have h1: "privConnectionConfigurationPromise (after exampleCollaborators streaming) = Some 0"
    using streaming_config by simp
  have h2: "\<not> configuredUnusable (after exampleCollaborators streaming) 0"
    using streaming_config by (simp add: configuredUnusable_def)
  have n: "length (configSends (createNoDashGuid 5) (trace (after exampleCollaborators streaming))) = 1"
    using streaming_config by simp
  from configureConnection_sends_at_most_one [of "createNoDashGuid 5" exampleCollaborators
      "after exampleCollaborators streaming" 0 "turnEndMessage ''turn.end'' (createNoDashGuid 3)" Conversation]
    h1 h2
  have "configureConnection exampleCollaborators (after exampleCollaborators streaming) =
          (0, after exampleCollaborators streaming)"
    and "configSends (createNoDashGuid 5)
     (trace (flowCore (handleMessage exampleCollaborators (turnEndMessage ''turn.end'' (createNoDashGuid 3))
        (after exampleCollaborators streaming)))) =
       configSends (createNoDashGuid 5) (trace (after exampleCollaborators streaming))"
    by blast+
  with h1 h2 n show ?thesis by simp
qed


text \<open>
  The steps of the configuration, for a serialized configuration and a speech context that
  are not empty.  The chain of \<^verbatim>\<open>configureConnection\<close> on a connection hands \<^verbatim>\<open>speech.config\<close> to
  the transport and nothing else, and waits for that send; the continuation of the
  resolved send hands \<^verbatim>\<open>speech.context\<close> to the transport and waits for that send; the
  continuation of that resolved send completes the configured-connection promise with the
  connection.  A cycle of the pump that finds this promise pending asks for no audio: it
  does nothing or waits for the promise.  What the code does not wait for is the
  \<^verbatim>\<open>speech.context\<close> that the handling of \<^verbatim>\<open>turn.end\<close> sends for the next turn.
\<close>

lemma configuration_chain:
  assumes "(if telemetryDataEnabled E then SpeechServiceConfigJson E else systemOnlyConfigJson E) = json"
    and "json \<noteq> []" and "speechContextJson E \<noteq> []"
  shows
   "trace (configStep r E q c s) =
      trace s @ [Send (nextFuture s) c
        (SpeechConnectionMessage Text ''speech.config'' (requestId (privRequestSession s))
           (Some ''application/json'') (TextBody json))] \<and>
    callbacks (configStep r E q c s) = callbacks s @ [(nextFuture s, KConfigSent q c)] \<and>
    configured (configStep r E q c s) = configured s \<and>
    onConfigSent E q c Sent s = contextStep (resolveConfigured E) E q c s \<and>
    trace (contextStep r E q c s) =
      trace s @ [Send (nextFuture s) c
        (SpeechConnectionMessage Text ''speech.context'' (requestId (privRequestSession s))
           (Some ''application/json'') (TextBody (speechContextJson E)))] \<and>
    callbacks (contextStep r E q c s) = callbacks s @ [(nextFuture s, KContextSent q c)] \<and>
    configured (contextStep r E q c s) = configured s \<and>
    onContextSent E q c Sent s = completeConfigured E q (Conn c) s \<and>
    configured (settleConfigured q (Conn c) s) q = Some (Conn c) \<and>
    (configured (snd (fetchConnection E s)) (fst (fetchConnection E s)) = None \<longrightarrow>
       snd (readAndUploadCycle E pu s) = s \<or>
       snd (readAndUploadCycle E pu s) =
         waitConfigured (fst (fetchConnection E s)) (KCycle pu) (snd (fetchConnection E s)))"
proof -
  have a: "trace (configStep r E q c s) =
      trace s @ [Send (nextFuture s) c
        (SpeechConnectionMessage Text ''speech.config'' (requestId (privRequestSession s))
           (Some ''application/json'') (TextBody json))] \<and>
    callbacks (configStep r E q c s) = callbacks s @ [(nextFuture s, KConfigSent q c)] \<and>
    configured (configStep r E q c s) = configured s"
    using assms(1,2)
    by (auto simp: configStep_def sendSpeechServiceConfig_def send_def await_def Let_def)
  have b: "onConfigSent E q c Sent s = contextStep (resolveConfigured E) E q c s"
    by (simp add: onConfigSent_def)
  have d: "trace (contextStep r E q c s) =
      trace s @ [Send (nextFuture s) c
        (SpeechConnectionMessage Text ''speech.context'' (requestId (privRequestSession s))
           (Some ''application/json'') (TextBody (speechContextJson E)))] \<and>
    callbacks (contextStep r E q c s) = callbacks s @ [(nextFuture s, KContextSent q c)] \<and>
    configured (contextStep r E q c s) = configured s"
    using assms(3)
    by (simp add: contextStep_def sendSpeechContext_def send_def await_def Let_def)
  have e: "onContextSent E q c Sent s = completeConfigured E q (Conn c) s \<and>
    configured (settleConfigured q (Conn c) s) q = Some (Conn c)"
    by (simp add: onContextSent_def resolveConfigured_def settleConfigured_def)
  have f: "configured (snd (fetchConnection E s)) (fst (fetchConnection E s)) = None \<longrightarrow>
       snd (readAndUploadCycle E pu s) = s \<or>
       snd (readAndUploadCycle E pu s) =
         waitConfigured (fst (fetchConnection E s)) (KCycle pu) (snd (fetchConnection E s))"
    by (simp add: readAndUploadCycle_def split: prod.splits)
  from a b d e f show ?thesis by blast
qed

lemma recognizing_pending:
  "configured (snd (fetchConnection exampleCollaborators (after exampleCollaborators [CallRecognize Conversation])))
     (fst (fetchConnection exampleCollaborators (after exampleCollaborators [CallRecognize Conversation]))) = None"
  by (simp add: example_defs core_defs session_defs cong: run_cong)

lemma configuration_chain_example:
  "(if telemetryDataEnabled exampleCollaborators then SpeechServiceConfigJson exampleCollaborators
    else systemOnlyConfigJson exampleCollaborators) =
     ''{context:{system:{version:1.7.0},os:{platform:Browser}}}'' \<and>
   ''{context:{system:{version:1.7.0},os:{platform:Browser}}}'' \<noteq> [] \<and>
   speechContextJson exampleCollaborators \<noteq> [] \<and>
   configured (snd (fetchConnection exampleCollaborators (after exampleCollaborators [CallRecognize Conversation])))
     (fst (fetchConnection exampleCollaborators (after exampleCollaborators [CallRecognize Conversation]))) = None \<and>
   (snd (readAndUploadCycle exampleCollaborators streamingPump (after exampleCollaborators [CallRecognize Conversation])) =
      after exampleCollaborators [CallRecognize Conversation] \<or>
    snd (readAndUploadCycle exampleCollaborators streamingPump (after exampleCollaborators [CallRecognize Conversation])) =
      waitConfigured (fst (fetchConnection exampleCollaborators (after exampleCollaborators [CallRecognize Conversation])))
        (KCycle streamingPump)
        (snd (fetchConnection exampleCollaborators (after exampleCollaborators [CallRecognize Conversation]))))"
proof -
  have h1: "(if telemetryDataEnabled exampleCollaborators then SpeechServiceConfigJson exampleCollaborators
    else systemOnlyConfigJson exampleCollaborators) =
     ''{context:{system:{version:1.7.0},os:{platform:Browser}}}''"
    by (simp add: exampleCollaborators_def)
  have h2: "''{context:{system:{version:1.7.0},os:{platform:Browser}}}'' \<noteq> []"
    by simp
  have h3: "speechContextJson exampleCollaborators \<noteq> []"
    by (simp add: exampleCollaborators_def)
  from configuration_chain [OF h1 h2 h3, of _ _ _ "after exampleCollaborators [CallRecognize Conversation]" streamingPump]
    recognizing_pending h1 h2 h3
  show ?thesis by blast
qed

text \<open>
  The run that refutes C2 as it is stated: in the second turn a Binary audio frame with the
  request id of that turn is handed to the transport, and no send of a \<^verbatim>\<open>speech.context\<close>
  with that request id has resolved.
\<close>

theorem audio_before_context_counterexample:
  "requestId (privRequestSession (after exampleCollaborators secondTurnAudio)) = createNoDashGuid 6 \<and>
   audioRequestIds (trace (after exampleCollaborators secondTurnAudio)) = [createNoDashGuid 6] \<and>
   \<not> contextResolvedFor (createNoDashGuid 6) (trace (after exampleCollaborators secondTurnAudio))"
  by (simp add: guid_3_6 example_defs core_defs session_defs cong: run_cong)

subsection \<open>Runs that return\<close>

lemma run_append:
  "run E (xs @ ys) s = (case run E xs s of Inl x \<Rightarrow> Inl x | Inr t \<Rightarrow> run E ys t)"
  by (induction xs arbitrary: s) (auto split: sum.splits)

lemma run_after:
  "(case run E evs newServiceRecognizerBase of Inr s \<Rightarrow> True | Inl x \<Rightarrow> False) \<Longrightarrow>
   run E evs newServiceRecognizerBase = Inr (after E evs)"
  by (simp add: after_def split: sum.splits)

subsection \<open>The budget of the pump on every run\<close>

text \<open>The invariant and the primitives of the state.\<close>

lemma pumped_upds [simp]:
  "pumped E (s\<lparr>privRequestSession := x1\<rparr>) = pumped E s"
  "pumped E (s\<lparr>privIsDisposed := x2\<rparr>) = pumped E s"
  "pumped E (s\<lparr>privMustReportEndOfStream := x3\<rparr>) = pumped E s"
  "pumped E (s\<lparr>privConnectionPromise := x4\<rparr>) = pumped E s"
  "pumped E (s\<lparr>privConnectionConfigurationPromise := y4\<rparr>) = pumped E s"
  "pumped E (s\<lparr>privConnectionId := x5\<rparr>) = pumped E s"
  "pumped E (s\<lparr>privAuthFetchEventId := x6\<rparr>) = pumped E s"
  "pumped E (s\<lparr>privSpeechServiceConfigConnectionId := x7\<rparr>) = pumped E s"
  "pumped E (s\<lparr>recognitionMode := x8\<rparr>) = pumped E s"
  "pumped E (s\<lparr>guids := x9\<rparr>) = pumped E s"
  "pumped E (s\<lparr>now := x10\<rparr>) = pumped E s"
  "pumped E (s\<lparr>nextPromise := x11\<rparr>) = pumped E s"
  "pumped E (s\<lparr>settled := x12\<rparr>) = pumped E s"
  "pumped E (s\<lparr>waiting := y12\<rparr>) = pumped E s"
  "pumped E (s\<lparr>nextConfigured := z12\<rparr>) = pumped E s"
  "pumped E (s\<lparr>configured := w12\<rparr>) = pumped E s"
  "pumped E (s\<lparr>nextFuture := x14\<rparr>) = pumped E s"
  "pumped E (s\<lparr>completed := x15\<rparr>) = pumped E s"
  "pumped E (s\<lparr>connectionState := x16\<rparr>) = pumped E s"
  "pumped E (s\<lparr>trace := x17\<rparr>) = pumped E s"
  by (simp_all add: pumped_def)

lemma pumped_prims [simp]:
  "pumped E (wait p k s) = pumped E s"
  "pumped E (snd (newFuture s)) = pumped E s"
  "pumped E (snd (newPromise s)) = pumped E s"
  "pumped E (snd (newConfigured s)) = pumped E s"
  "pumped E (settleConfigured q v s) = pumped E s"
  "pumped E (settle p v s) = pumped E s"
  "pumped E (session g s) = pumped E s"
  "pumped E (emit a s) = pumped E s"
  "pumped E (snd (send c m s)) = pumped E s"
  by (simp_all add: wait_def newFuture_def newPromise_def newConfigured_def settleConfigured_def
      settle_def session_def emit_def send_def)

lemma pumped_await: "pumped E (await f k s) = (pumped E s \<and> budgeted E k)"
  by (auto simp: pumped_def await_def)

lemma pumped_waitConfigured: "pumped E (waitConfigured q k s) = (pumped E s \<and> budgeted E k)"
  by (auto simp: pumped_def waitConfigured_def)




lemma budgeted_simps [simp]:
  "budgeted E KAttach" "budgeted E (KAuth p b)" "budgeted E (KOpen p b c)" "budgeted E (KFollow p)"
  "budgeted E (KConfigure q)" "budgeted E (KConfigSent q c)" "budgeted E (KContextSent q c)"
  "budgeted E (KDispose r)" "budgeted E KRecognize" "budgeted E KRead" "budgeted E KMessage"
  "budgeted E (KTelemetry d)" "budgeted E KSpeechContext" "budgeted E KFinalAudio"
  "budgeted E (KCycle pu) = (maxSendUnthrottledBytes pu = maxUnthrottled E)"
  "budgeted E (KChunk pu c) = (maxSendUnthrottledBytes pu = maxUnthrottled E)"
  "budgeted E (KTimer pu u) = (maxSendUnthrottledBytes pu = maxUnthrottled E)"
  "budgeted E (KUploaded pu) = (maxSendUnthrottledBytes pu = maxUnthrottled E)"
  by (simp_all add: budgeted_def pumpOf_def)

lemmas pumped_simps = pumped_await pumped_waitConfigured








text \<open>The sends and reads that run on a configured connection.\<close>

lemma pumped_leaves [simp]:
  "pumped E (telemetryMessage d c s) = pumped E s"
  "pumped E (finalAudioMessage c s) = pumped E s"
  "pumped E (speechContextMessage E' c s) = pumped E s"
  "pumped E (connectionRead c s) = pumped E s"
  "pumped E (connectionDispose r c s) = pumped E s"
  "pumped E (snd (resolvePump pu s)) = pumped E s"
  by (simp_all add: telemetryMessage_def finalAudioMessage_def speechContextMessage_def
      sendSpeechContext_def connectionRead_def connectionDispose_def
      resolvePump_def Let_def split_beta pumped_simps)


















































subsection \<open>The speech.config messages on every run\<close>

text \<open>The invariant and the primitives of the state.\<close>

lemma credit_cong:
  assumes "length (filter isConfig (trace s')) = length (filter isConfig (trace s))"
    "waiting s' = waiting s" "nextConfigured s' = nextConfigured s"
  shows "credit n s' = credit n s"
  using assms by (simp add: credit_def)

lemma credit_upds [simp]:
  "credit n (s\<lparr>privRequestSession := x1\<rparr>) = credit n s"
  "credit n (s\<lparr>privIsDisposed := x2\<rparr>) = credit n s"
  "credit n (s\<lparr>privMustReportEndOfStream := x3\<rparr>) = credit n s"
  "credit n (s\<lparr>privConnectionPromise := x4\<rparr>) = credit n s"
  "credit n (s\<lparr>privConnectionConfigurationPromise := y4\<rparr>) = credit n s"
  "credit n (s\<lparr>privConnectionId := x5\<rparr>) = credit n s"
  "credit n (s\<lparr>privAuthFetchEventId := x6\<rparr>) = credit n s"
  "credit n (s\<lparr>privSpeechServiceConfigConnectionId := x7\<rparr>) = credit n s"
  "credit n (s\<lparr>recognitionMode := x8\<rparr>) = credit n s"
  "credit n (s\<lparr>guids := x9\<rparr>) = credit n s"
  "credit n (s\<lparr>now := x10\<rparr>) = credit n s"
  "credit n (s\<lparr>nextPromise := x11\<rparr>) = credit n s"
  "credit n (s\<lparr>settled := x12\<rparr>) = credit n s"
  "credit n (s\<lparr>configured := w12\<rparr>) = credit n s"
  "credit n (s\<lparr>configuredWaiting := x13\<rparr>) = credit n s"
  "credit n (s\<lparr>nextFuture := x14\<rparr>) = credit n s"
  "credit n (s\<lparr>completed := x15\<rparr>) = credit n s"
  "credit n (s\<lparr>callbacks := y15\<rparr>) = credit n s"
  "credit n (s\<lparr>connectionState := x16\<rparr>) = credit n s"
  by (simp_all add: credit_def)

lemma credit_prims [simp]:
  "credit n (waitConfigured q k s) = credit n s"
  "credit n (snd (newFuture s)) = credit n s"
  "credit n (snd (newPromise s)) = credit n s"
  "credit n (settleConfigured q v s) = credit n s"
  "credit n (settle p v s) = credit n s"
  "credit n (session g s) = credit n s"
  "credit n (await f k s) = credit n s"
  by (simp_all add: waitConfigured_def newFuture_def newPromise_def settleConfigured_def settle_def
      session_def await_def)


lemma credit_emit: "\<not> isConfig a \<Longrightarrow> credit n (emit a s) = credit n s"
  by (simp add: credit_def emit_def)

lemma credit_send: "path m \<noteq> ''speech.config'' \<Longrightarrow> credit n (snd (send c m s)) = credit n s"
  by (simp add: credit_def send_def isConfig_def)


lemma credit_wait: "\<not> isConfigure k \<Longrightarrow> credit n (wait p k s) = credit n s"
  by (simp add: credit_def wait_def)




lemmas credit_simps = credit_emit credit_send credit_wait isConfig_def isConfigure_def








text \<open>The sends and reads that run on a configured connection.\<close>

lemma credit_leaves [simp]:
  "credit n (telemetryMessage d c s) = credit n s"
  "credit n (finalAudioMessage c s) = credit n s"
  "credit n (speechContextMessage E c s) = credit n s"
  "credit n (connectionRead c s) = credit n s"
  "credit n (connectionDispose r c s) = credit n s"
  "credit n (audioStreamNodeRead pu c s) = credit n s"
  "credit n (snd (resolvePump pu s)) = credit n s"
  by (simp_all add: telemetryMessage_def finalAudioMessage_def speechContextMessage_def
      sendSpeechContext_def connectionRead_def connectionDispose_def audioStreamNodeRead_def
      resolvePump_def Let_def split_beta credit_simps)














































subsection \<open>No attempt is ever retried\<close>

text \<open>The invariant and the primitives of the state.\<close>

lemma calm_cong:
  assumes "privConnectionPromise s' = privConnectionPromise s" "settled s' = settled s"
    "nextPromise s' = nextPromise s" "callbacks s' = callbacks s" "waiting s' = waiting s"
    "list_ex isFetchOnExpiry (trace s') = list_ex isFetchOnExpiry (trace s)"
  shows "calm D S X s' = calm D S X s"
proof -
  have a: "attempts s' X = attempts s X" using assms by (simp add: attempts_def)
  have "good D s' = good D s" using assms by (auto simp: fun_eq_iff good_def own_def split: cont.splits)
  moreover have "stuck D s' X = stuck D s X"
    using assms a by (auto simp: fun_eq_iff stuck_def split: cont.splits)
  ultimately show ?thesis using assms a by (simp add: calm_def)
qed

lemma calm_upds [simp]:
  "calm D S X (s\<lparr>privRequestSession := x1\<rparr>) = calm D S X s"
  "calm D S X (s\<lparr>privIsDisposed := x2\<rparr>) = calm D S X s"
  "calm D S X (s\<lparr>privMustReportEndOfStream := x3\<rparr>) = calm D S X s"
  "calm D S X (s\<lparr>privConnectionConfigurationPromise := y4\<rparr>) = calm D S X s"
  "calm D S X (s\<lparr>privConnectionId := x5\<rparr>) = calm D S X s"
  "calm D S X (s\<lparr>privAuthFetchEventId := x6\<rparr>) = calm D S X s"
  "calm D S X (s\<lparr>privSpeechServiceConfigConnectionId := x7\<rparr>) = calm D S X s"
  "calm D S X (s\<lparr>recognitionMode := x8\<rparr>) = calm D S X s"
  "calm D S X (s\<lparr>guids := x9\<rparr>) = calm D S X s"
  "calm D S X (s\<lparr>now := x10\<rparr>) = calm D S X s"
  "calm D S X (s\<lparr>nextConfigured := z12\<rparr>) = calm D S X s"
  "calm D S X (s\<lparr>configured := w12\<rparr>) = calm D S X s"
  "calm D S X (s\<lparr>configuredWaiting := x13\<rparr>) = calm D S X s"
  "calm D S X (s\<lparr>nextFuture := x14\<rparr>) = calm D S X s"
  "calm D S X (s\<lparr>completed := x15\<rparr>) = calm D S X s"
  "calm D S X (s\<lparr>connectionState := x16\<rparr>) = calm D S X s"
  by (rule calm_cong; simp)+

lemma calm_prims [simp]:
  "calm D S X (waitConfigured q k s) = calm D S X s"
  "calm D S X (snd (newFuture s)) = calm D S X s"
  "calm D S X (snd (newConfigured s)) = calm D S X s"
  "calm D S X (settleConfigured q v s) = calm D S X s"
  "calm D S X (session g s) = calm D S X s"
  "calm D S X (snd (send c m s)) = calm D S X s"
  by (rule calm_cong; simp add: waitConfigured_def newFuture_def newConfigured_def settleConfigured_def
      session_def send_def isFetchOnExpiry_def)+

lemma calm_emit: "\<not> isFetchOnExpiry a \<Longrightarrow> calm D S X (emit a s) = calm D S X s"
  by (rule calm_cong; simp add: emit_def)

lemma attempts_await: "\<not> isAttempt k \<Longrightarrow> attempts (await f k s) X = attempts s X"
  by (simp add: attempts_def await_def)

lemma calm_await: "\<not> isAttempt k \<Longrightarrow> calm D S X (await f k s) = calm D S X s"
proof -
  assume k: "\<not> isAttempt k"
  have "good D (await f k s) = good D s"
    by (auto simp: fun_eq_iff good_def own_def await_def split: cont.splits)
  moreover have "stuck D (await f k s) X = stuck D s X"
    using attempts_await [OF k] by (auto simp: fun_eq_iff stuck_def await_def split: cont.splits)
  ultimately show ?thesis using attempts_await [OF k] by (simp add: calm_def) (simp add: await_def)
qed

lemma calm_wait: "\<not> isFollow (p, k) \<Longrightarrow> calm D S X (wait p k s) = calm D S X s"
proof -
  assume k: "\<not> isFollow (p, k)"
  have a: "attempts (wait p k s) X = attempts s X" by (simp add: attempts_def wait_def)
  have "good D (wait p k s) = good D s"
    by (auto simp: fun_eq_iff good_def own_def wait_def split: cont.splits)
  moreover have "stuck D (wait p k s) X = stuck D s X"
    using a by (auto simp: fun_eq_iff stuck_def wait_def split: cont.splits)
  moreover have "stuck D s X (p, k)" using k by (auto simp: stuck_def isFollow_def split: cont.splits)
  moreover have "(r, KFollow r) \<in> set (waiting (wait p k s)) = ((r, KFollow r) \<in> set (waiting s))" for r
    using k by (auto simp: wait_def isFollow_def)
  ultimately show ?thesis using a by (simp add: calm_def) (simp add: wait_def)
qed

lemma calm_skip: "\<not> isAttempt k \<Longrightarrow> calm D S (k # X) s = calm D S X s"
proof -
  assume k: "\<not> isAttempt k"
  have a: "attempts s (k # X) = attempts s X" using k by (simp add: attempts_def)
  then have "stuck D s (k # X) = stuck D s X" by (auto simp: fun_eq_iff stuck_def split: cont.splits)
  then show ?thesis using a by (simp add: calm_def)
qed

lemma good_mono: "good D s k \<Longrightarrow> D' \<subseteq> D \<Longrightarrow> good D' s k"
  by (cases k) (auto simp: good_def own_def)

lemma stuck_mono: "stuck D s X w \<Longrightarrow> D' \<subseteq> D \<Longrightarrow> stuck D' s X w"
  by (cases "snd w") (auto simp: stuck_def)

lemma calm_weaken:
  assumes "calm D S X s" "D' \<subseteq> D" "S' \<subseteq> S"
  shows "calm D' S' X s"
proof -
  have "list_all (good D' s) (attempts s X)"
    using assms(1,2) good_mono unfolding calm_def list_all_iff by blast
  moreover have "list_all (stuck D' s X) (waiting s)"
    using assms(1,2) stuck_mono unfolding calm_def list_all_iff by blast
  moreover have "\<forall>p\<in>D'. p < nextPromise s" using assms(1,2) unfolding calm_def by blast
  moreover have "\<forall>p\<in>S'. (p, KFollow p) \<in> set (waiting s)" using assms(1,3) unfolding calm_def by blast
  ultimately show ?thesis using assms(1) by (simp add: calm_def)
qed

text \<open>What an attempt that is pending tells.\<close>

lemma calm_good: "calm D S X s \<Longrightarrow> k \<in> set (attempts s X) \<Longrightarrow> good D s k"
  by (simp add: calm_def list_all_iff)

lemma calm_pending:
  assumes "calm D S X s" "attempts s X \<noteq> [] \<or> (\<exists>w\<in>set (waiting s). isFollow w)"
  shows "\<exists>p. privConnectionPromise s = Some p \<and> settled s p = None"
proof -
  from assms(2) show ?thesis
  proof
    assume "attempts s X \<noteq> []"
    then obtain k where k: "k \<in> set (attempts s X)" by (cases "attempts s X") auto
    then have "isAttempt k" by (auto simp: attempts_def)
    moreover have "good D s k" using assms(1) k by (rule calm_good)
    ultimately show ?thesis by (cases k) (auto simp: isAttempt_def good_def own_def)
  next
    assume "\<exists>w\<in>set (waiting s). isFollow w"
    then obtain w where w: "w \<in> set (waiting s)" "isFollow w" by blast
    then have "stuck D s X w" using assms(1) by (simp add: calm_def list_all_iff)
    then show ?thesis using w(2) by (cases "snd w") (auto simp: stuck_def isFollow_def)
  qed
qed

lemma calm_idle:
  assumes "calm D S X s" "privConnectionPromise s = None \<or> (\<exists>p. privConnectionPromise s = Some p \<and> settled s p \<noteq> None)"
  shows "attempts s X = []" "\<forall>w\<in>set (waiting s). \<not> isFollow w" "S = {}"
proof -
  have n: "\<not> (\<exists>p. privConnectionPromise s = Some p \<and> settled s p = None)"
    using assms(2) by auto
  show a: "attempts s X = []"
  proof (rule ccontr)
    assume "attempts s X \<noteq> []"
    then show False using calm_pending [OF assms(1)] n by blast
  qed
  show b: "\<forall>w\<in>set (waiting s). \<not> isFollow w"
  proof (rule ccontr)
    assume "\<not> (\<forall>w\<in>set (waiting s). \<not> isFollow w)"
    then have "\<exists>w\<in>set (waiting s). isFollow w" by blast
    then show False using calm_pending [OF assms(1)] n by blast
  qed
  have "\<forall>p\<in>S. (p, KFollow p) \<in> set (waiting s)" using assms(1) by (simp add: calm_def)
  then show "S = {}" using b by (fastforce simp: isFollow_def)
qed

lemma calm_idleI:
  assumes "attempts s X = []" "\<forall>w\<in>set (waiting s). \<not> isFollow w"
    "\<forall>p. nextPromise s \<le> p \<longrightarrow> settled s p = None" "\<forall>p\<in>D. p < nextPromise s"
    "\<not> list_ex isFetchOnExpiry (trace s)"
  shows "calm D {} X s"
proof -
  have "stuck D s X w" if "w \<in> set (waiting s)" for w
    using assms(2) that by (cases "snd w") (auto simp: stuck_def isFollow_def)
  then show ?thesis using assms by (simp add: calm_def list_all_iff)
qed

lemma calm_base:
  assumes "calm D S X s"
  shows "\<forall>p. nextPromise s \<le> p \<longrightarrow> settled s p = None" "\<forall>p\<in>D. p < nextPromise s"
    "\<not> list_ex isFetchOnExpiry (trace s)"
  using assms by (simp_all add: calm_def)

text \<open>The connection manager.\<close>

lemma calm_connectAttempt:
  assumes "calm D S X s"
    "privConnectionPromise s = None \<or> (\<exists>p. privConnectionPromise s = Some p \<and> settled s p \<noteq> None)"
  shows "calm D S X (snd (connectAttempt False s))"
proof -
  note i = calm_idle [OF assms]
  note b = calm_base [OF assms(1)]
  define t where "t = snd (connectAttempt False s)"
  have cb: "callbacks t = callbacks s @ [(nextFuture s, KAuth (nextPromise s) False)]"
    and st: "privConnectionPromise t = Some (nextPromise s)"
    and np: "nextPromise t = Suc (nextPromise s)"
    and se: "settled t = settled s"
    and wa: "waiting t = waiting s"
    and tr: "trace t = trace s @ [Fetch (createNoDashGuid (guids s))]"
    by (simp_all add: t_def connectAttempt_def Let_def split_beta newFuture_def newPromise_def await_def
        emit_def session_def)
  have at: "attempts t X = [KAuth (nextPromise s) False]"
    using i(1) cb by (simp add: attempts_def isAttempt_def)
  have g: "good D t (KAuth (nextPromise s) False)"
    using b st np se by (auto simp: good_def own_def)
  have "stuck D t X w" if "w \<in> set (waiting t)" for w
    using i(2) that wa by (cases "snd w") (auto simp: stuck_def isFollow_def)
  then have "calm D {} X t"
    using at g b np se tr by (auto simp: calm_def list_all_iff isFetchOnExpiry_def)
  then show ?thesis using i(3) by (simp add: t_def)
qed

lemma calm_connectImpl:
  assumes "calm D S X s"
  shows "calm D S X (snd (connectImpl False s))"
proof (cases "privConnectionPromise s")
  case None
  then show ?thesis using calm_connectAttempt [OF assms] by (simp add: connectImpl_def)
next
  case (Some p)
  show ?thesis
  proof (cases "completedUnusable s p")
    case False
    then show ?thesis using Some assms by (simp add: connectImpl_def)
  next
    case True
    then have u: "settled s p \<noteq> None" by (auto simp: completedUnusable_def split: option.splits)
    define s0 where "s0 = s\<lparr>privConnectionId := None, privConnectionPromise := None\<rparr>"
    note i = calm_idle [OF assms, OF disjI2, OF exI, of p, OF conjI, OF Some u]
    have "calm D {} X s0"
      using i calm_base [OF assms] by (intro calm_idleI) (simp_all add: s0_def attempts_def)
    then have "calm D {} X (snd (connectAttempt False s0))"
      by (rule calm_connectAttempt) (simp add: s0_def)
    then show ?thesis using Some True i(3) by (simp add: connectImpl_def s0_def)
  qed
qed


lemma calm_foldl:
  assumes "\<And>t k. calm D S X t \<Longrightarrow> k \<in> set ks \<Longrightarrow> calm D S X (g t k)" "calm D S X s"
  shows "calm D S X (foldl g s ks)"
  using assms by (induction ks arbitrary: s) auto

lemmas calm_simps = calm_emit calm_await calm_wait isFetchOnExpiry_def isAttempt_def isFollow_def

text \<open>The configurator.\<close>

lemma calm_contextStep:
  assumes "calm D S X s" "\<And>t. calm D S X t \<Longrightarrow> calm D S X (r q c t)"
  shows "calm D S X (contextStep r E q c s)"
  using assms by (simp add: contextStep_def sendSpeechContext_def Let_def split_beta calm_simps)

lemma calm_configStep:
  assumes "calm D S X s" "\<And>t. calm D S X t \<Longrightarrow> calm D S X (r q c t)"
  shows "calm D S X (configStep r E q c s)"
  using assms
  by (simp add: configStep_def sendSpeechServiceConfig_def Let_def split_beta calm_simps calm_contextStep)

lemma calm_configureAttempt:
  assumes "calm D S X s"
  shows "calm D S X (snd (configureAttempt E s))"
  using calm_connectImpl [OF assms]
  by (auto simp: configureAttempt_def Let_def split_beta calm_simps intro!: calm_configStep
      split: option.splits outcome.splits)

lemma calm_configureConnection:
  assumes "calm D S X s"
  shows "calm D S X (snd (configureConnection E s))"
  using assms
  by (auto simp: configureConnection_def intro!: calm_configureAttempt split: option.splits)

lemma calm_fetchConnection:
  assumes "calm D S X s"
  shows "calm D S X (snd (fetchConnection E s))"
  using calm_configureConnection [OF assms] by (simp add: fetchConnection_def)

text \<open>The sends and reads that run on a configured connection.\<close>

lemma calm_leaves [simp]:
  "calm D S X (telemetryMessage d c s) = calm D S X s"
  "calm D S X (finalAudioMessage c s) = calm D S X s"
  "calm D S X (speechContextMessage E c s) = calm D S X s"
  "calm D S X (connectionRead c s) = calm D S X s"
  "calm D S X (connectionDispose r c s) = calm D S X s"
  "calm D S X (audioStreamNodeRead pu c s) = calm D S X s"
  "calm D S X (snd (resolvePump pu s)) = calm D S X s"
  by (simp_all add: telemetryMessage_def finalAudioMessage_def speechContextMessage_def
      sendSpeechContext_def connectionRead_def connectionDispose_def audioStreamNodeRead_def
      resolvePump_def Let_def split_beta calm_simps)

lemma calm_onSuccessContinueWith:
  assumes "calm D S X s" "\<And>c. calm D S X (g c s)"
  shows "calm D S X (onSuccessContinueWith q k g s)"
  using assms by (auto simp: onSuccessContinueWith_def split: option.splits outcome.splits)

lemma calm_sendTelemetryData:
  assumes "calm D S X s"
  shows "calm D S X (sendTelemetryData E s)"
  using assms
  by (auto simp: sendTelemetryData_def Let_def split_beta split: option.splits
      intro!: calm_onSuccessContinueWith calm_fetchConnection)

lemma calm_cancelRecognitionLocal:
  assumes "calm D S X s"
  shows "calm D S X (cancelRecognitionLocal E a b x s)"
  using assms
  by (auto simp: cancelRecognitionLocal_def Let_def calm_simps intro!: calm_sendTelemetryData)

lemma calm_receiveMessage:
  assumes "calm D S X s"
  shows "calm D S X (receiveMessage E s)"
  using assms
  by (auto simp: receiveMessage_def split_beta intro!: calm_onSuccessContinueWith calm_fetchConnection)

text \<open>The receive loop.\<close>

lemma calm_onSpeechStartDetected:
  "calm D S X s \<Longrightarrow> calm D S X (flowCore (onSpeechStartDetected E m s))"
  by (auto simp: onSpeechStartDetected_def flowCore_def calm_simps split: option.splits)

lemma calm_onSpeechEndDetected:
  "calm D S X s \<Longrightarrow> calm D S X (flowCore (onSpeechEndDetected E m s))"
  by (auto simp: onSpeechEndDetected_def flowCore_def calm_simps Let_def split: option.splits)

lemma calm_onTurnEnd:
  assumes "calm D S X s"
  shows "calm D S X (flowCore (onTurnEnd E m s))"
  using assms
  by (auto simp: onTurnEnd_def flowCore_def calm_simps Let_def split_beta
      intro!: calm_onSuccessContinueWith calm_fetchConnection
        calm_cancelRecognitionLocal calm_sendTelemetryData)

lemma calm_handleMessage:
  assumes "calm D S X s"
  shows "calm D S X (flowCore (handleMessage E m s))"
proof -
  have "calm D S X (flowCore (Next (emit (processTypeSpecificMessages m) s)))"
    using assms by (simp add: flowCore_def calm_simps)
  moreover have "calm D S X (flowCore (Next (s\<lparr>privMustReportEndOfStream := True\<rparr>)))"
    "calm D S X (flowCore (Next s))"
    using assms by (simp_all add: flowCore_def)
  ultimately show ?thesis
    using calm_onTurnEnd [OF assms] calm_onSpeechEndDetected [OF assms]
      calm_onSpeechStartDetected [OF assms]
    by (simp add: handleMessage_def Let_def)
qed

lemma calm_onMessage:
  assumes "calm D S X s"
  shows "calm D S X (onMessage E v s)"
proof (cases v)
  case (Message message)
  show ?thesis
  proof (cases message)
    case None
    then show ?thesis
      using Message assms by (simp add: onMessage_def calm_receiveMessage)
  next
    case (Some m)
    have "calm D S X (flowCore (handleMessage E m s))" by (rule calm_handleMessage [OF assms])
    then show ?thesis
      using Message Some assms
      by (auto simp: onMessage_def flowCore_def calm_receiveMessage split: flow.splits)
  qed
qed (use assms in \<open>simp_all add: onMessage_def\<close>)

text \<open>The upstream pump.\<close>

lemma calm_rejectPump:
  assumes "calm D S X s"
  shows "calm D S X (snd (rejectPump E e pu s))"
  using assms
  by (auto simp: rejectPump_def calm_simps intro!: calm_cancelRecognitionLocal)

lemma calm_readAndUploadCycle:
  assumes "calm D S X s"
  shows "calm D S X (snd (readAndUploadCycle E pu s))"
  using assms calm_fetchConnection [OF assms]
  by (auto simp: readAndUploadCycle_def split_beta intro!: calm_rejectPump
      split: option.splits outcome.splits)

lemma calm_sendAudio:
  assumes "calm D S X s"
  shows "calm D S X (snd (sendAudio E s))"
  unfolding sendAudio_def by (rule calm_readAndUploadCycle [OF assms])

lemma calm_onAudioChunk:
  assumes "calm D S X s"
  shows "calm D S X (snd (onAudioChunk E pu c buffer isEnd s))"
  using assms
  by (auto simp: onAudioChunk_def Let_def split_beta calm_simps)

lemma calm_onAudioError:
  assumes "calm D S X s"
  shows "calm D S X (snd (onAudioError E pu e s))"
  using assms by (simp add: onAudioError_def calm_rejectPump)

lemma calm_onTimer:
  assumes "calm D S X s"
  shows "calm D S X (snd (onTimer E pu u s))"
  using assms
  by (auto simp: onTimer_def calm_simps intro!: calm_readAndUploadCycle split: option.splits)

text \<open>Completion of the promises.\<close>

lemma calm_recognizeStart:
  assumes "calm D S X s"
  shows "calm D S X (recognizeStart E s)"
  using assms
  by (auto simp: recognizeStart_def Let_def calm_simps intro!: calm_sendAudio calm_receiveMessage)

lemma calm_recognizeFailed:
  assumes "calm D S X s"
  shows "calm D S X (recognizeFailed E e s)"
  using assms by (simp add: recognizeFailed_def calm_cancelRecognitionLocal)

lemma calm_runConfigured:
  assumes "calm D S X s"
  shows "calm D S X (runConfigured E v s k)"
  using assms
  by (cases v; cases k)
    (simp_all add: runConfigured_def calm_recognizeStart calm_recognizeFailed calm_rejectPump)

lemma calm_completeConfigured:
  assumes "calm D S X s"
  shows "calm D S X (completeConfigured E q v s)"
  using assms
  by (auto simp: completeConfigured_def split_beta takeConfiguredWaiting_def
      intro!: calm_foldl calm_runConfigured)

lemma calm_resolveConfigured:
  assumes "calm D S X s"
  shows "calm D S X (resolveConfigured E q c s)"
  unfolding resolveConfigured_def by (rule calm_completeConfigured [OF assms])

lemma good_settle: "good D s k \<Longrightarrow> p \<in> D \<Longrightarrow> good D (settle p v s) k"
  by (cases k) (auto simp: good_def own_def settle_def)

lemma stuck_settle: "stuck D s X w \<Longrightarrow> p \<in> D \<Longrightarrow> stuck D (settle p v s) X w"
  by (cases "snd w") (auto simp: stuck_def settle_def attempts_def)

lemma calm_settle:
  assumes "calm D S X s" "p \<in> D"
  shows "calm D S X (settle p v s)"
proof -
  have a: "attempts (settle p v s) X = attempts s X" by (simp add: attempts_def settle_def)
  have "list_all (good D (settle p v s)) (attempts s X)"
    using assms good_settle unfolding calm_def list_all_iff by blast
  moreover have "list_all (stuck D (settle p v s) X) (waiting s)"
    using assms stuck_settle unfolding calm_def list_all_iff by blast
  moreover have "\<forall>r. nextPromise s \<le> r \<longrightarrow> (if r = p then Some v else settled s r) = None"
    using assms unfolding calm_def by auto
  ultimately show ?thesis
    using assms(1) a by (simp add: calm_def) (simp add: settle_def)
qed

lemma calm_takeWaiting:
  assumes "calm D S X s" "p \<in> D"
  shows "calm D S X (snd (takeWaiting p s))" "\<forall>k\<in>set (fst (takeWaiting p s)). \<not> isFollow (p, k)"
proof -
  have st: "stuck D s X w" if "w \<in> set (waiting s)" for w
    using assms(1) that by (simp add: calm_def list_all_iff)
  show "\<forall>k\<in>set (fst (takeWaiting p s)). \<not> isFollow (p, k)"
  proof
    fix k assume "k \<in> set (fst (takeWaiting p s))"
    then have "(p, k) \<in> set (waiting s)" by (auto simp: takeWaiting_def)
    from st [OF this] assms(2) show "\<not> isFollow (p, k)"
      by (cases k) (auto simp: stuck_def isFollow_def)
  qed
  define t where "t = snd (takeWaiting p s)"
  have w: "waiting t = filter (\<lambda>w. fst w \<noteq> p) (waiting s)" by (simp add: t_def takeWaiting_def)
  have a: "attempts t X = attempts s X" by (simp add: t_def takeWaiting_def attempts_def)
  have "good D t = good D s"
    by (auto simp: fun_eq_iff good_def own_def t_def takeWaiting_def split: cont.splits)
  moreover have "stuck D t X = stuck D s X"
    using a by (auto simp: fun_eq_iff stuck_def t_def takeWaiting_def split: cont.splits)
  moreover have "(r, KFollow r) \<in> set (waiting t)" if "r \<in> S" for r
  proof -
    have m: "(r, KFollow r) \<in> set (waiting s)" using assms(1) that by (simp add: calm_def)
    from st [OF m] assms(2) have "r \<noteq> p" by (auto simp: stuck_def)
    then show ?thesis using m w by simp
  qed
  ultimately have "calm D S X t"
    using assms(1) a w unfolding calm_def list_all_iff
    by (auto simp: t_def takeWaiting_def)
  then show "calm D S X (snd (takeWaiting p s))" by (simp add: t_def)
qed

lemma calm_completeConnectionN:
  assumes "calm D S X s" "p \<in> D"
  shows "calm D S X (completeConnectionN n E p v s)"
proof (cases n)
  case 0
  then show ?thesis using assms by simp
next
  case (Suc m)
  define s0 where "s0 = settle p v s"
  define s1 where "s1 = snd (takeWaiting p s0)"
  define ks where "ks = fst (takeWaiting p s0)"
  have s0: "calm D S X s0" unfolding s0_def by (rule calm_settle [OF assms])
  note t = calm_takeWaiting [OF s0 assms(2)]
  let ?g = "\<lambda>s k.
            case k of
              KConfigure q \<Rightarrow>
                (case v of
                   Conn c \<Rightarrow> configStep (resolveConfigured E) E q c s
                 | Failed error \<Rightarrow> completeConfigured E q (Failed error) s
                 | _ \<Rightarrow> s)
            | KDispose reason \<Rightarrow> (case v of Conn c \<Rightarrow> connectionDispose reason c s | _ \<Rightarrow> s)
            | KFollow p' \<Rightarrow> completeConnectionN m E p' v s
            | _ \<Rightarrow> s"
  have "calm D S X (foldl ?g s1 ks)"
  proof (rule calm_foldl)
    show "calm D S X s1" using t(1) by (simp add: s1_def)
  next
    fix t' k
    assume t': "calm D S X t'" and k: "k \<in> set ks"
    have nf: "\<not> isFollow (p, k)" using t(2) k by (simp add: ks_def)
    show "calm D S X (?g t' k)"
      using t' nf
      by (cases k; cases v)
        (simp_all add: calm_configStep calm_resolveConfigured calm_completeConfigured isFollow_def)
  qed
  then show ?thesis using Suc by (simp add: split_beta s1_def ks_def s0_def)
qed

lemma calm_completeConnection:
  assumes "calm D S X s" "p \<in> D"
  shows "calm D S X (completeConnection E p v s)"
  unfolding completeConnection_def by (rule calm_completeConnectionN [OF assms])


text \<open>The continuations of an attempt.\<close>

lemma calm_pop:
  assumes "calm D S (k # X) s" "isAttempt k"
  shows "good D s k" "attempts s X = []" "\<forall>w\<in>set (waiting s). \<not> isFollow w" "S = {}"
proof -
  have a: "attempts s (k # X) = filter isAttempt (map snd (callbacks s)) @ k # filter isAttempt X"
    using assms(2) by (simp add: attempts_def)
  have "length (attempts s (k # X)) \<le> 1" using assms(1) by (simp add: calm_def)
  then have "length (filter isAttempt (map snd (callbacks s))) = 0" "length (filter isAttempt X) = 0"
    unfolding a by simp_all
  then have "filter isAttempt (map snd (callbacks s)) = []" "filter isAttempt X = []"
    by blast+
  then show e: "attempts s X = []" by (simp add: attempts_def)
  have "k \<in> set (attempts s (k # X))" unfolding a by simp
  then show "good D s k" using assms(1) by (simp add: calm_def list_all_iff)
  have ne: "attempts s (k # X) \<noteq> []" unfolding a by simp
  show f: "\<forall>w\<in>set (waiting s). \<not> isFollow w"
  proof
    fix w assume w: "w \<in> set (waiting s)"
    then have "stuck D s (k # X) w" using assms(1) by (simp add: calm_def list_all_iff)
    then show "\<not> isFollow w" using ne by (cases "snd w") (auto simp: stuck_def isFollow_def)
  qed
  have "\<forall>p\<in>S. (p, KFollow p) \<in> set (waiting s)" using assms(1) by (simp add: calm_def)
  then show "S = {}" using f by (fastforce simp: isFollow_def)
qed

lemma calm_popped:
  assumes "calm D S (k # X) s" "isAttempt k"
  shows "calm D {} X s"
  using calm_pop [OF assms] calm_base [OF assms(1)] by (intro calm_idleI) simp_all

lemma calm_done:
  assumes "calm D S (k # X) s" "isAttempt k" "own D s p b"
  shows "calm (insert p D) {} X s"
  using calm_pop [OF assms(1,2)] calm_base [OF assms(1)] assms(3)
  by (intro calm_idleI) (simp_all add: own_def)

lemma calm_attemptI:
  assumes "attempts s X = []" "\<forall>w\<in>set (waiting s). \<not> isFollow w"
    "\<forall>p. nextPromise s \<le> p \<longrightarrow> settled s p = None" "\<forall>p\<in>D. p < nextPromise s"
    "\<not> list_ex isFetchOnExpiry (trace s)" "isAttempt k" "good D s k"
  shows "calm D {} X (await f k s)"
proof -
  have at: "attempts (await f k s) X = [k]"
    using assms(1,6) by (simp add: attempts_def await_def)
  have g: "good D (await f k s) k"
    using assms(7) by (cases k) (auto simp: good_def own_def await_def)
  have "stuck D (await f k s) X w" if "w \<in> set (waiting s)" for w
    using assms(2) that by (cases "snd w") (auto simp: stuck_def isFollow_def)
  moreover have "waiting (await f k s) = waiting s" "nextPromise (await f k s) = nextPromise s"
    "settled (await f k s) = settled s" "trace (await f k s) = trace s"
    by (simp_all add: await_def)
  ultimately show ?thesis
    using at g assms(3,4,5) by (simp add: calm_def list_all_iff)
qed

lemma calm_onAuth:
  assumes "calm D S (KAuth p b # X) s"
  shows "calm D S X (onAuth E p b v s)"
proof -
  have k: "isAttempt (KAuth p b)" by (simp add: isAttempt_def)
  note pop = calm_pop [OF assms k]
  have o: "own D s p b" using pop(1) by (simp add: good_def)
  have S: "S = {}" by (rule pop(4))
  have idle: "calm D {} X s" by (rule calm_popped [OF assms k])
  have dn: "calm (insert p D) {} X s" by (rule calm_done [OF assms k o])
  show ?thesis
  proof (cases v)
    case (Failed e)
    have "calm (insert p D) {} X (completeConnection E p (Failed e) (session (onAuthCompleted True) s))"
      using dn by (intro calm_completeConnection) simp_all
    then have "calm D {} X (completeConnection E p (Failed e) (session (onAuthCompleted True) s))"
      by (rule calm_weaken) auto
    then show ?thesis using Failed S by (simp add: onAuth_def)
  next
    case (AuthInfo a)
    define s1 where "s1 = session (onAuthCompleted False) s"
    define c where "c = (case privConnectionId s1 of Some c \<Rightarrow> c | None \<Rightarrow> ''null'')"
    define s3 where "s3 = snd (newFuture (emit (Open c) (emit (Create c) s1)))"
    have "calm D {} X (await (nextFuture s1) (KOpen p b c) s3)"
    proof (rule calm_attemptI)
      show "attempts s3 X = []"
        using pop(2) by (simp add: s3_def s1_def attempts_def newFuture_def emit_def session_def)
      show "\<forall>w\<in>set (waiting s3). \<not> isFollow w"
        using pop(3) by (simp add: s3_def s1_def newFuture_def emit_def session_def)
      show "\<forall>p. nextPromise s3 \<le> p \<longrightarrow> settled s3 p = None"
        using calm_base(1) [OF assms] by (simp add: s3_def s1_def newFuture_def emit_def session_def)
      show "\<forall>p\<in>D. p < nextPromise s3"
        using calm_base(2) [OF assms] by (simp add: s3_def s1_def newFuture_def emit_def session_def)
      show "\<not> list_ex isFetchOnExpiry (trace s3)"
        using calm_base(3) [OF assms]
        by (simp add: s3_def s1_def newFuture_def emit_def session_def isFetchOnExpiry_def)
      show "isAttempt (KOpen p b c)" by (simp add: isAttempt_def)
      show "good D s3 (KOpen p b c)"
        using o by (simp add: good_def own_def s3_def s1_def newFuture_def emit_def session_def)
    qed
    moreover have "onAuth E p b v s = await (nextFuture s1) (KOpen p b c) s3"
      using AuthInfo unfolding s3_def c_def s1_def
      by (simp add: onAuth_def Let_def split_beta newFuture_def emit_def session_def)
    ultimately show ?thesis using S by simp
  qed (use idle S in \<open>simp_all add: onAuth_def\<close>)
qed

lemma calm_stuckI:
  assumes "calm D S (k # X) s" "isAttempt k" "own D s p b"
  shows "calm D {p} X (wait p (KFollow p) s)"
proof -
  note pop = calm_pop [OF assms(1,2)]
  note b = calm_base [OF assms(1)]
  have a: "attempts (wait p (KFollow p) s) X = []" using pop(2) by (simp add: attempts_def wait_def)
  have "stuck D (wait p (KFollow p) s) X w" if "w \<in> set (waiting s)" for w
    using pop(3) that by (cases "snd w") (auto simp: stuck_def isFollow_def)
  moreover have "stuck D (wait p (KFollow p) s) X (p, KFollow p)"
    using a assms(3) by (simp add: stuck_def own_def wait_def)
  ultimately show ?thesis
    using a b by (simp add: calm_def list_all_iff) (auto simp: wait_def)
qed

lemma calm_onOpen:
  assumes "calm D S (KOpen p b c # X) s"
  shows "calm D (S \<union> stuckBy v (KOpen p b c)) X (onOpen E p b c v s)"
proof -
  have k: "isAttempt (KOpen p b c)" by (simp add: isAttempt_def)
  note pop = calm_pop [OF assms k]
  have o: "own D s p b" using pop(1) by (simp add: good_def)
  have S: "S = {}" by (rule pop(4))
  have idle: "calm D {} X s" by (rule calm_popped [OF assms k])
  have dn: "calm (insert p D) {} X s" by (rule calm_done [OF assms k o])
  have cc: "calm D {} X (completeConnection E p w t)" if "calm (insert p D) {} X t" for w t
  proof -
    have "calm (insert p D) {} X (completeConnection E p w t)"
      using that by (intro calm_completeConnection) simp_all
    then show ?thesis by (rule calm_weaken) auto
  qed
  show ?thesis
  proof (cases v)
    case (Failed e)
    then show ?thesis using cc [OF dn] S by (simp add: onOpen_def stuckBy_def)
  next
    case (OpenResponse statusCode reason)
    show ?thesis
    proof (cases "statusCode = 403")
      case True
      have ci: "connectImpl True s = (p, s)"
        using o by (simp add: connectImpl_def own_def completedUnusable_def)
      have "calm D {p} X (wait p (KFollow p) s)" by (rule calm_stuckI [OF assms k o])
      then show ?thesis
        using OpenResponse True o ci S by (simp add: onOpen_def stuckBy_def own_def)
    next
      case False
      have "calm D {} X (completeConnection E p w (session g s))" for w g
        using dn by (intro cc) simp
      moreover have "calm D {} X (completeConnection E p w (session g (session g' s)))" for w g g'
        using dn by (intro cc) simp
      ultimately show ?thesis
        using OpenResponse False S by (simp add: onOpen_def stuckBy_def)
    qed
  qed (use idle S in \<open>simp_all add: onOpen_def stuckBy_def\<close>)
qed

text \<open>The other continuations, and the completion of a future.\<close>

lemma calm_onConfigSent:
  assumes "calm D S X s"
  shows "calm D S X (onConfigSent E q c v s)"
  using assms
  by (cases v)
    (simp_all add: onConfigSent_def calm_contextStep calm_resolveConfigured calm_completeConfigured)

lemma calm_onContextSent:
  assumes "calm D S X s"
  shows "calm D S X (onContextSent E q c v s)"
  using assms
  by (cases v) (simp_all add: onContextSent_def calm_resolveConfigured calm_completeConfigured)

lemma calm_onAttach:
  assumes "calm D S X s"
  shows "calm D S X (onAttach E v s)"
  using assms
  by (cases v)
    (auto simp: onAttach_def Let_def split_beta
      intro!: calm_recognizeFailed calm_recognizeStart calm_configureConnection
      split: option.splits outcome.splits)

lemma calm_onChunk:
  assumes "calm D S X s"
  shows "calm D S X (onChunk E pu c v s)"
  using assms
  by (cases v) (simp_all add: onChunk_def calm_onAudioChunk calm_onAudioError)

lemma calm_runCallback:
  assumes "calm D S (k # X) s"
  shows "calm D (S \<union> stuckBy v k) X (runCallback E v s k)"
proof (cases k)
  case (KAuth p b)
  then show ?thesis using calm_onAuth [of D S p b X s] assms by (simp add: runCallback_def stuckBy_def)
next
  case (KOpen p b c)
  then show ?thesis using calm_onOpen [of D S p b c X s] assms by (simp add: runCallback_def)
qed (use assms in \<open>simp_all add: runCallback_def stuckBy_def calm_skip isAttempt_def calm_onAttach
    calm_onConfigSent calm_onContextSent calm_onMessage calm_onChunk calm_onTimer
    calm_readAndUploadCycle\<close>)

lemma calm_callbacks:
  "calm D S ks s \<Longrightarrow> calm D (S \<union> \<Union> (stuckBy v ` set ks)) [] (foldl (runCallback E v) s ks)"
proof (induction ks arbitrary: s S)
  case Nil
  then show ?case by simp
next
  case (Cons k ks)
  have "calm D (S \<union> stuckBy v k) ks (runCallback E v s k)" by (rule calm_runCallback [OF Cons.prems])
  from Cons.IH [OF this]
  have "calm D (S \<union> stuckBy v k \<union> \<Union> (stuckBy v ` set ks)) [] (foldl (runCallback E v) (runCallback E v s k) ks)" .
  moreover have "S \<union> stuckBy v k \<union> \<Union> (stuckBy v ` set ks) = S \<union> \<Union> (stuckBy v ` set (k # ks))"
    by auto
  ultimately show ?case by simp
qed

lemma split_length:
  "length (filter P (map snd (filter (\<lambda>w. fst w \<noteq> f) xs) @ map snd (filter (\<lambda>w. fst w = f) xs))) =
   length (filter P (map snd xs))"
  by (induction xs) auto

lemma split_set:
  "set (filter P (map snd (filter (\<lambda>w. fst w \<noteq> f) xs) @ map snd (filter (\<lambda>w. fst w = f) xs))) =
   set (filter P (map snd xs))"
  by auto

lemma calm_rearrange:
  assumes "calm D S [] s"
    "callbacks s' = filter (\<lambda>w. fst w \<noteq> f) (callbacks s)"
    "ks = map snd (filter (\<lambda>w. fst w = f) (callbacks s))"
    "privConnectionPromise s' = privConnectionPromise s" "settled s' = settled s"
    "nextPromise s' = nextPromise s" "waiting s' = waiting s"
    "list_ex isFetchOnExpiry (trace s') = list_ex isFetchOnExpiry (trace s)"
  shows "calm D S ks s'"
proof -
  have l: "length (attempts s' ks) = length (attempts s [])"
    using assms(2,3) split_length [of isAttempt f "callbacks s"] by (simp add: attempts_def)
  have e: "set (attempts s' ks) = set (attempts s [])"
    using assms(2,3) split_set [of isAttempt f "callbacks s"] by (simp add: attempts_def)
  have n: "(attempts s' ks = []) = (attempts s [] = [])"
    using e by (metis set_empty)
  have g: "good D s' = good D s"
    using assms by (auto simp: fun_eq_iff good_def own_def split: cont.splits)
  have st: "stuck D s' ks = stuck D s []"
    using assms n by (auto simp: fun_eq_iff stuck_def split: cont.splits)
  show ?thesis
    using assms(1) l e g st assms(4-8) by (simp add: calm_def list_all_iff)
qed

lemma calm_complete_stuck:
  assumes "calm D S [] s"
  shows "calm D (S \<union> (if f < nextFuture s \<and> completed s f = None
                      then \<Union> (stuckBy v ` snd ` {w \<in> set (callbacks s). fst w = f}) else {})) []
           (complete E f v s)"
proof (cases "f < nextFuture s \<and> completed s f = None")
  case False
  then show ?thesis using assms by (auto simp: complete_def)
next
  case True
  define s1 where "s1 = (if list_ex (isSend f) (trace s) then emit (SendDone f (v = Sent)) s else s)"
  define ks where "ks = map snd (filter (\<lambda>w. fst w = f) (callbacks s))"
  define s3 where "s3 = s1\<lparr>completed := (completed s1)(f \<mapsto> v), callbacks := filter (\<lambda>w. fst w \<noteq> f) (callbacks s1)\<rparr>"
  have "calm D S ks s3"
    using assms
  proof (rule calm_rearrange)
    show "callbacks s3 = filter (\<lambda>w. fst w \<noteq> f) (callbacks s)" by (simp add: s3_def s1_def emit_def)
    show "ks = map snd (filter (\<lambda>w. fst w = f) (callbacks s))" by (simp add: ks_def)
    show "list_ex isFetchOnExpiry (trace s3) = list_ex isFetchOnExpiry (trace s)"
      by (simp add: s3_def s1_def emit_def isFetchOnExpiry_def)
  qed (simp_all add: s3_def s1_def emit_def)
  then have "calm D (S \<union> \<Union> (stuckBy v ` set ks)) [] (foldl (runCallback E v) s3 ks)"
    by (rule calm_callbacks)
  moreover have "complete E f v s = foldl (runCallback E v) s3 ks"
    using True unfolding s3_def ks_def s1_def by (simp add: complete_def Let_def emit_def)
  moreover have "set ks = snd ` {w \<in> set (callbacks s). fst w = f}" by (auto simp: ks_def)
  ultimately show ?thesis using True by simp
qed

lemma calm_complete:
  assumes "calm D S [] s"
  shows "calm D S [] (complete E f v s)"
  using calm_complete_stuck [OF assms] by (rule calm_weaken) auto

text \<open>The public operations and the runs.\<close>

lemma calm_recognize: "calm D S [] s \<Longrightarrow> calm D S [] (recognize E m s)"
  by (auto simp: recognize_def Let_def split_beta calm_simps intro!: calm_connectImpl)

lemma calm_stopRecognizing:
  assumes "calm D S [] s"
  shows "calm D S [] (stopRecognizing E s)"
  using assms
  by (auto simp: stopRecognizing_def sendFinalAudio_def Let_def split_beta calm_simps
      intro!: calm_onSuccessContinueWith calm_fetchConnection calm_sendTelemetryData)

lemma calm_connect: "calm D S [] s \<Longrightarrow> calm D S [] (connect s)"
  by (simp add: connect_def calm_connectImpl)

lemma calm_forget:
  assumes "calm D S X s" "privConnectionPromise s = Some p" "settled s p \<noteq> None"
  shows "calm D S X (s\<lparr>privConnectionPromise := None\<rparr>)"
proof -
  note i = calm_idle [OF assms(1), OF disjI2, OF exI, of p, OF conjI, OF assms(2,3)]
  have "calm D {} X (s\<lparr>privConnectionPromise := None\<rparr>)"
    using i calm_base [OF assms(1)] by (intro calm_idleI) (simp_all add: attempts_def)
  then show ?thesis using i(3) by simp
qed

lemma calm_disconnect:
  assumes "calm D S [] s" "disconnect E s = Inr s'"
  shows "calm D S [] s'"
proof -
  define s1 where "s1 = cancelRecognitionLocal E Error NoError (Some ''Disconnecting'') s"
  have s1: "calm D S [] s1" unfolding s1_def by (rule calm_cancelRecognitionLocal [OF assms(1)])
  from assms(2) obtain p where p: "privConnectionPromise s1 = Some p"
    by (auto simp: disconnect_def Let_def s1_def split: option.splits)
  show ?thesis
  proof (cases "settled s1 p")
    case None
    then have "s' = wait p (KDispose None) s1"
      using assms(2) p by (simp add: disconnect_def Let_def s1_def)
    then show ?thesis using s1 by (simp add: calm_simps)
  next
    case (Some w)
    show ?thesis
    proof (cases w)
      case (Conn c)
      then have "s' = (connectionDispose None c s1)\<lparr>privConnectionPromise := None\<rparr>"
        using assms(2) p Some by (simp add: disconnect_def Let_def s1_def)
      moreover have "calm D S [] ((connectionDispose None c s1)\<lparr>privConnectionPromise := None\<rparr>)"
      proof (rule calm_forget [where p = p])
        show "calm D S [] (connectionDispose None c s1)" using s1 by simp
        show "privConnectionPromise (connectionDispose None c s1) = Some p"
          using p by (simp add: connectionDispose_def emit_def)
        show "settled (connectionDispose None c s1) p \<noteq> None"
          using Some by (simp add: connectionDispose_def emit_def)
      qed
      ultimately show ?thesis by simp
    qed (use assms(2) p Some s1 in \<open>auto simp: disconnect_def Let_def s1_def\<close>)
  qed
qed

lemma calm_dispose: "calm D S [] s \<Longrightarrow> calm D S [] (dispose r s)"
  by (auto simp: dispose_def Let_def intro!: calm_onSuccessContinueWith split: option.splits)

lemma calm_step:
  assumes "calm D S [] s" "step E ev s = Inr s'"
  shows "calm D S [] s'"
  using assms
  by (cases ev)
    (auto simp: step_def calm_recognize calm_stopRecognizing calm_connect calm_dispose calm_complete
      intro: calm_disconnect)

lemma calm_run: "calm D S [] s \<Longrightarrow> run E evs s = Inr s' \<Longrightarrow> calm D S [] s'"
proof (induction evs arbitrary: s)
  case Nil
  then show ?case by simp
next
  case (Cons ev evs)
  then show ?case
    using calm_step [of D S s E ev]
    by (cases "step E ev s") auto
qed

lemma calm_new: "calm {} {} [] newServiceRecognizerBase"
  by (simp add: calm_def newServiceRecognizerBase_def attempts_def)

lemma calm_stuck:
  assumes "calm D S X s" "p \<in> S"
  shows "privConnectionPromise s = Some p" "settled s p = None"
proof -
  have m: "(p, KFollow p) \<in> set (waiting s)" using assms by (simp add: calm_def)
  then have "stuck D s X (p, KFollow p)" using assms(1) by (simp add: calm_def list_all_iff)
  then show "privConnectionPromise s = Some p" "settled s p = None" by (simp_all add: stuck_def)
qed

lemma forbidden_returns:
  "(case run exampleCollaborators forbidden newServiceRecognizerBase of Inr s \<Rightarrow> True | Inl x \<Rightarrow> False)"
  by (simp add: example_defs core_defs session_defs cong: run_cong)

lemma retried_returns:
  "(case run exampleCollaborators retried newServiceRecognizerBase of Inr s \<Rightarrow> True | Inl x \<Rightarrow> False)"
  by (simp add: example_defs core_defs session_defs cong: run_cong)

lemma forbidden_pending: "completed (after exampleCollaborators forbidden) 1 = None"
  by (simp add: example_defs core_defs session_defs cong: run_cong)

text \<open>
  C6, as the code has it, on every run.  Whenever the \<^verbatim>\<open>open\<close> of an attempt is pending
  (on a future \<open>f\<close>, for the connection promise \<open>p\<close>) and answers 403, then whatever the
  application calls and whatever the collaborators answer afterwards: the stored
  connection promise is still \<open>p\<close>, \<open>p\<close> has not completed, and \<^verbatim>\<open>fetchOnExpiry\<close> has never
  been called.  The call \<^verbatim>\<open>this.connectImpl(true)\<close> finds the stored promise of the attempt
  pending and returns it, so the attempt waits for itself.  The claim says a second
  attempt is made with \<^verbatim>\<open>fetchOnExpiry\<close> and that the connect future then resolves or fails.
\<close>

theorem forbidden_open_is_never_retried:
  assumes "run E evs newServiceRecognizerBase = Inr s"
    and "(f, KOpen p b c) \<in> set (callbacks s)" and "f < nextFuture s" and "completed s f = None"
    and "run E (Completes f (OpenResponse 403 reason) # evs') s = Inr s'"
  shows "privConnectionPromise s' = Some p \<and> settled s' p = None \<and> \<not> list_ex isFetchOnExpiry (trace s')"
proof -
  have s: "calm {} {} [] s" by (rule calm_run [OF calm_new assms(1)])
  define t where "t = complete E f (OpenResponse 403 reason) s"
  define U where "U = \<Union> (stuckBy (OpenResponse 403 reason) ` snd ` {w \<in> set (callbacks s). fst w = f})"
  have "(f, KOpen p b c) \<in> {w \<in> set (callbacks s). fst w = f}" using assms(2) by simp
  then have "KOpen p b c \<in> snd ` {w \<in> set (callbacks s). fst w = f}" by (rule image_eqI [rotated]) simp
  moreover have "p \<in> stuckBy (OpenResponse 403 reason) (KOpen p b c)" by (simp add: stuckBy_def)
  ultimately have p: "p \<in> U" unfolding U_def by blast
  have "calm {} ({} \<union> U) [] t"
    using calm_complete_stuck [OF s, of f "OpenResponse 403 reason" E] assms(3,4)
    by (simp add: t_def U_def)
  then have "calm {} {p} [] t" by (rule calm_weaken) (use p in simp_all)
  moreover have "run E evs' t = Inr s'" using assms(5) by (simp add: step_def t_def)
  ultimately have c: "calm {} {p} [] s'" by (rule calm_run)
  have "p \<in> {p}" by simp
  from calm_stuck [OF c this] calm_base(3) [OF c] show ?thesis by simp
qed

theorem forbidden_open_is_never_retried_witness:
  "run exampleCollaborators forbidden newServiceRecognizerBase = Inr (after exampleCollaborators forbidden) \<and>
   (1, KOpen 0 False (createNoDashGuid 3)) \<in> set (callbacks (after exampleCollaborators forbidden)) \<and>
   1 < nextFuture (after exampleCollaborators forbidden) \<and>
   completed (after exampleCollaborators forbidden) 1 = None \<and>
   run exampleCollaborators (Completes 1 (OpenResponse 403 ''Forbidden'') # [CallConnect])
       (after exampleCollaborators forbidden) = Inr (after exampleCollaborators retried) \<and>
   privConnectionPromise (after exampleCollaborators retried) = Some 0 \<and>
   settled (after exampleCollaborators retried) 0 = None \<and>
   \<not> list_ex isFetchOnExpiry (trace (after exampleCollaborators retried))"
proof -
  have h1: "run exampleCollaborators forbidden newServiceRecognizerBase = Inr (after exampleCollaborators forbidden)"
    by (rule run_after [OF forbidden_returns])
  have h2: "(1, KOpen 0 False (createNoDashGuid 3)) \<in> set (callbacks (after exampleCollaborators forbidden))"
    using forbidden_state by simp
  have h3: "1 < nextFuture (after exampleCollaborators forbidden)"
    using forbidden_state by simp
  have h4: "completed (after exampleCollaborators forbidden) 1 = None"
    by (rule forbidden_pending)
  have "run exampleCollaborators retried newServiceRecognizerBase = Inr (after exampleCollaborators retried)"
    by (rule run_after [OF retried_returns])
  then have h5: "run exampleCollaborators (Completes 1 (OpenResponse 403 ''Forbidden'') # [CallConnect])
       (after exampleCollaborators forbidden) = Inr (after exampleCollaborators retried)"
    using h1 run_append [of exampleCollaborators forbidden
        "[Completes 1 (OpenResponse 403 ''Forbidden''), CallConnect]" newServiceRecognizerBase]
    by (simp add: retried_def)
  from forbidden_open_is_never_retried [OF h1 h2 h3 h4 h5] h1 h2 h3 h4 h5 show ?thesis by blast
qed

subsection \<open>The order of the sends on every run\<close>

text \<open>Logs.\<close>

lemma isTextSend_iff:
  "isTextSend p c f a = (\<exists>m. a = Send f c m \<and> path m = p \<and> messageType m = Text)"
  by (cases a) (auto simp: isTextSend_def)

lemma handed_iff: "handed p f c tr = (\<exists>m. Send f c m \<in> set tr \<and> path m = p \<and> messageType m = Text)"
  by (auto simp: handed_def list_ex_iff isTextSend_iff)

lemma isResolvedSend_iff:
  "isResolvedSend p c tr a = (\<exists>f. a = SendDone f True \<and> handed p f c tr)"
  by (cases a) (auto simp: isResolvedSend_def)

lemma sendResolved_iff:
  "sendResolved p c tr = (\<exists>f. SendDone f True \<in> set tr \<and> handed p f c tr)"
  by (auto simp: sendResolved_def list_ex_iff isResolvedSend_iff)

lemma handed_append: "handed p f c tr \<Longrightarrow> handed p f c (tr @ xs)"
  by (auto simp: handed_iff)

lemma handed_isSend: "handed p f c tr \<Longrightarrow> list_ex (isSend f) tr"
  by (auto simp: handed_iff list_ex_iff isSend_def intro!: bexI)

lemma sendResolved_append: "sendResolved p c tr \<Longrightarrow> sendResolved p c (tr @ xs)"
  by (auto simp: sendResolved_iff handed_iff)

lemma sendResolved_done: "handed p f c tr \<Longrightarrow> sendResolved p c (tr @ [SendDone f True])"
  by (auto simp: sendResolved_iff handed_iff)

lemma ordered_snoc: "ordered pre (tr @ [a]) = (ordered pre tr \<and> admissible (pre @ tr) a)"
  by (induction tr arbitrary: pre) auto

lemma ordered_mid: "ordered pre (xs @ a # ys) \<Longrightarrow> admissible (pre @ xs) a"
proof (induction xs arbitrary: pre)
  case (Cons b xs)
  from Cons.prems have "ordered (pre @ [b]) (xs @ a # ys)" by simp
  from Cons.IH [OF this] show ?case by simp
qed simp

lemma cbOk_append: "cbOk tr fk \<Longrightarrow> cbOk (tr @ xs) fk"
  by (auto simp: cbOk_def handed_append sendResolved_append split: cont.splits)

lemma context_after_config:
  assumes "ordered [] tr" "sendResolved ''speech.context'' c tr"
  shows "sendResolved ''speech.config'' c tr"
proof -
  from assms(2) obtain f m where m: "Send f c m \<in> set tr" "path m = ''speech.context''" "messageType m = Text"
    by (auto simp: sendResolved_iff handed_iff)
  then obtain xs ys where tr: "tr = xs @ Send f c m # ys" by (auto simp: in_set_conv_decomp)
  with assms(1) have "admissible xs (Send f c m)" using ordered_mid [of "[]" xs] by simp
  with m have "sendResolved ''speech.config'' c xs" by (simp add: admissible_def inOrder_def)
  then show ?thesis using tr sendResolved_append by blast
qed

text \<open>The invariant and the primitives of the state.\<close>

lemma safe_upds [simp]:
  "safe R (s\<lparr>privRequestSession := x1\<rparr>) = safe R s"
  "safe R (s\<lparr>privIsDisposed := x2\<rparr>) = safe R s"
  "safe R (s\<lparr>privMustReportEndOfStream := x3\<rparr>) = safe R s"
  "safe R (s\<lparr>privConnectionPromise := x4\<rparr>) = safe R s"
  "safe R (s\<lparr>privConnectionConfigurationPromise := y4\<rparr>) = safe R s"
  "safe R (s\<lparr>privConnectionId := x5\<rparr>) = safe R s"
  "safe R (s\<lparr>privAuthFetchEventId := x6\<rparr>) = safe R s"
  "safe R (s\<lparr>privSpeechServiceConfigConnectionId := x7\<rparr>) = safe R s"
  "safe R (s\<lparr>recognitionMode := x8\<rparr>) = safe R s"
  "safe R (s\<lparr>guids := x9\<rparr>) = safe R s"
  "safe R (s\<lparr>now := x10\<rparr>) = safe R s"
  "safe R (s\<lparr>nextPromise := x11\<rparr>) = safe R s"
  "safe R (s\<lparr>settled := x12\<rparr>) = safe R s"
  "safe R (s\<lparr>waiting := y12\<rparr>) = safe R s"
  "safe R (s\<lparr>nextConfigured := z12\<rparr>) = safe R s"
  "safe R (s\<lparr>configuredWaiting := x13\<rparr>) = safe R s"
  "safe R (s\<lparr>nextFuture := x14\<rparr>) = safe R s"
  "safe R (s\<lparr>completed := x15\<rparr>) = safe R s"
  "safe R (s\<lparr>connectionState := x16\<rparr>) = safe R s"
  by (simp_all add: safe_def)

lemma safe_prims [simp]:
  "safe R (wait p k s) = safe R s"
  "safe R (waitConfigured q k s) = safe R s"
  "safe R (snd (newFuture s)) = safe R s"
  "safe R (snd (newPromise s)) = safe R s"
  "safe R (snd (newConfigured s)) = safe R s"
  "safe R (settle p v s) = safe R s"
  "safe R (session g s) = safe R s"
  by (simp_all add: wait_def waitConfigured_def newFuture_def newPromise_def newConfigured_def
      settle_def session_def)

lemma trace_prims [simp]:
  "trace (wait p k s) = trace s"
  "trace (waitConfigured q k s) = trace s"
  "trace (snd (newFuture s)) = trace s"
  "trace (snd (newPromise s)) = trace s"
  "trace (snd (newConfigured s)) = trace s"
  "trace (settle p v s) = trace s"
  "trace (session g s) = trace s"
  "trace (await f k s) = trace s"
  "trace (emit a s) = trace s @ [a]"
  "trace (snd (send c m s)) = trace s @ [Send (nextFuture s) c m]"
  "fst (send c m s) = nextFuture s"
  "fst (newFuture s) = nextFuture s"
  by (simp_all add: wait_def waitConfigured_def newFuture_def newPromise_def newConfigured_def
      settle_def session_def await_def emit_def send_def)

lemma safe_weaken: "safe R s \<Longrightarrow> R' \<subseteq> R \<Longrightarrow> safe R' s"
  by (auto simp: safe_def)

lemma safe_R: "safe R s \<Longrightarrow> (p, c) \<in> R \<Longrightarrow> sendResolved p c (trace s)"
  by (auto simp: safe_def)

lemma safe_ordered: "safe R s \<Longrightarrow> ordered [] (trace s)"
  by (simp add: safe_def)

lemma safe_configured: "safe R s \<Longrightarrow> configured s q = Some (Conn c) \<Longrightarrow> sendResolved ''speech.context'' c (trace s)"
  by (auto simp: safe_def)

lemma safe_extend:
  "safe R s \<Longrightarrow> (\<And>p c. (p, c) \<in> R' \<Longrightarrow> sendResolved p c (trace s)) \<Longrightarrow> safe (R \<union> R') s"
  by (auto simp: safe_def)

lemma safe_emit:
  assumes "safe R s" "admissible (trace s) a"
  shows "safe R (emit a s)"
  using assms
  by (auto simp: safe_def emit_def ordered_snoc sendResolved_append list_all_iff
      intro: cbOk_append)

lemma safe_send:
  assumes "safe R s" "inOrder (trace s) c m"
  shows "safe R (snd (send c m s))"
  using assms
  by (auto simp: safe_def send_def ordered_snoc sendResolved_append list_all_iff admissible_def
      intro: cbOk_append)

lemma safe_await:
  assumes "safe R s" "cbOk (trace s) (f, k)"
  shows "safe R (await f k s)"
  using assms by (auto simp: safe_def await_def)

lemma safe_filter: "safe R s \<Longrightarrow> safe R (s\<lparr>callbacks := filter P (callbacks s)\<rparr>)"
  by (auto simp: safe_def list_all_iff)

lemma safe_settleConfigured:
  assumes "safe R s" "\<And>c. v = Conn c \<Longrightarrow> sendResolved ''speech.context'' c (trace s)"
  shows "safe R (settleConfigured q v s)"
  using assms by (auto simp: safe_def settleConfigured_def)

lemma safe_foldl:
  assumes "\<And>t k. safe R t \<Longrightarrow> k \<in> set ks \<Longrightarrow> safe R (g t k)" "safe R s"
  shows "safe R (foldl g s ks)"
  using assms by (induction ks arbitrary: s) auto

text \<open>The connection manager.\<close>

lemma safe_connectAttempt: "safe R s \<Longrightarrow> safe R (snd (connectAttempt b s))"
  by (auto simp: connectAttempt_def Let_def split_beta cbOk_def admissible_def
      intro!: safe_await safe_emit)

lemma safe_connectImpl: "safe R s \<Longrightarrow> safe R (snd (connectImpl b s))"
  by (auto simp: connectImpl_def intro!: safe_connectAttempt split: option.splits)

text \<open>The configurator.\<close>

lemma configStep_eq:
  assumes "nonEmptyJson E"
  shows "configStep r E q c s =
     await (nextFuture s) (KConfigSent q c)
       (snd (send c (SpeechConnectionMessage Text ''speech.config'' (requestId (privRequestSession s))
                (Some ''application/json'')
                (TextBody (if telemetryDataEnabled E then SpeechServiceConfigJson E else systemOnlyConfigJson E)))
             (s\<lparr>privSpeechServiceConfigConnectionId := privConnectionId s\<rparr>)))"
  using assms
  by (simp add: nonEmptyJson_def configStep_def sendSpeechServiceConfig_def Let_def split_beta)

lemma contextStep_eq:
  assumes "nonEmptyJson E"
  shows "contextStep r E q c s =
     await (nextFuture s) (KContextSent q c)
       (snd (send c (SpeechConnectionMessage Text ''speech.context'' (requestId (privRequestSession s))
                (Some ''application/json'') (TextBody (speechContextJson E))) s))"
  using assms
  by (simp add: nonEmptyJson_def contextStep_def sendSpeechContext_def Let_def split_beta)

lemma safe_configStep:
  assumes "nonEmptyJson E" "safe R s"
  shows "safe R (configStep r E q c s)"
  unfolding configStep_eq [OF assms(1)]
proof (intro safe_await safe_send)
  show "safe R (s\<lparr>privSpeechServiceConfigConnectionId := privConnectionId s\<rparr>)"
    using assms(2) by simp
qed (auto simp: inOrder_def cbOk_def handed_iff)

lemma safe_contextStep:
  assumes "nonEmptyJson E" "safe R s" "sendResolved ''speech.config'' c (trace s)"
  shows "safe R (contextStep r E q c s)"
  unfolding contextStep_eq [OF assms(1)]
proof (intro safe_await safe_send)
  show "safe R s" by fact
qed (use assms(3) in \<open>auto simp: inOrder_def cbOk_def handed_iff\<close>)

lemma safe_configureAttempt:
  assumes "nonEmptyJson E" "safe R s"
  shows "safe R (snd (configureAttempt E s))"
  using safe_connectImpl [OF assms(2), of False]
  by (auto simp: configureAttempt_def Let_def split_beta
      intro!: safe_configStep [OF assms(1)] safe_settleConfigured split: option.splits outcome.splits)

lemma safe_configureConnection:
  assumes "nonEmptyJson E" "safe R s"
  shows "safe R (snd (configureConnection E s))"
  using assms
  by (auto simp: configureConnection_def intro!: safe_configureAttempt split: option.splits)

lemma safe_fetchConnection:
  assumes "nonEmptyJson E" "safe R s"
  shows "safe R (snd (fetchConnection E s))"
  using safe_configureConnection [OF assms] by (simp add: fetchConnection_def)

text \<open>The sends and reads that run on a configured connection.\<close>

lemma safe_telemetryMessage:
  assumes "safe R s" "sendResolved ''speech.context'' c (trace s)"
  shows "safe R (telemetryMessage d c s)"
  unfolding telemetryMessage_def
  using assms by (intro safe_send) (simp_all add: inOrder_def)

lemma safe_finalAudioMessage:
  assumes "safe R s" "sendResolved ''speech.context'' c (trace s)"
  shows "safe R (finalAudioMessage c s)"
  unfolding finalAudioMessage_def
  using assms by (intro safe_send) (simp_all add: inOrder_def)

lemma safe_speechContextMessage:
  assumes "nonEmptyJson E" "safe R s" "sendResolved ''speech.context'' c (trace s)"
  shows "safe R (speechContextMessage E c s)"
proof -
  have "sendResolved ''speech.config'' c (trace s)"
    using assms context_after_config safe_ordered by blast
  then show ?thesis
    using assms(1,2)
    by (auto simp: nonEmptyJson_def speechContextMessage_def sendSpeechContext_def Let_def split_beta
        inOrder_def intro!: safe_send)
qed

lemma safe_connectionRead: "safe R s \<Longrightarrow> safe R (connectionRead c s)"
  by (auto simp: connectionRead_def Let_def split_beta cbOk_def admissible_def
      intro!: safe_await safe_emit)

lemma safe_connectionDispose: "safe R s \<Longrightarrow> safe R (connectionDispose r c s)"
  by (auto simp: connectionDispose_def admissible_def intro!: safe_emit)

lemma safe_audioStreamNodeRead:
  assumes "safe R s" "sendResolved ''speech.context'' c (trace s)"
  shows "safe R (audioStreamNodeRead pu c s)"
  using assms
  by (auto simp: audioStreamNodeRead_def Let_def split_beta cbOk_def admissible_def
      sendResolved_append intro!: safe_await safe_emit)

lemma safe_onSuccessContinueWith:
  assumes "safe R s"
    and "\<And>c. sendResolved ''speech.context'' c (trace s) \<Longrightarrow> safe R (g c s)"
  shows "safe R (onSuccessContinueWith q k g s)"
  using assms safe_configured [OF assms(1), where q = q]
  by (auto simp: onSuccessContinueWith_def split: option.splits outcome.splits)

lemma safe_sendTelemetryData:
  assumes "nonEmptyJson E" "safe R s"
  shows "safe R (sendTelemetryData E s)"
  using assms(2)
  by (auto simp: sendTelemetryData_def Let_def split_beta split: option.splits
      intro!: safe_onSuccessContinueWith safe_telemetryMessage safe_fetchConnection [OF assms(1)])

lemma safe_cancelRecognitionLocal:
  assumes "nonEmptyJson E" "safe R s"
  shows "safe R (cancelRecognitionLocal E a b x s)"
  using assms
  by (auto simp: cancelRecognitionLocal_def Let_def admissible_def
      intro!: safe_emit safe_sendTelemetryData)

lemma safe_receiveMessage:
  assumes "nonEmptyJson E" "safe R s"
  shows "safe R (receiveMessage E s)"
  using assms
  by (auto simp: receiveMessage_def split_beta
      intro!: safe_onSuccessContinueWith safe_connectionRead safe_fetchConnection)

text \<open>The receive loop.\<close>

lemma safe_onSpeechStartDetected:
  "safe R s \<Longrightarrow> safe R (flowCore (onSpeechStartDetected E m s))"
  by (auto simp: onSpeechStartDetected_def flowCore_def admissible_def intro!: safe_emit
      split: option.splits)

lemma safe_onSpeechEndDetected:
  "safe R s \<Longrightarrow> safe R (flowCore (onSpeechEndDetected E m s))"
  by (auto simp: onSpeechEndDetected_def flowCore_def admissible_def Let_def intro!: safe_emit
      split: option.splits)

lemma safe_onTurnEnd:
  assumes "nonEmptyJson E" "safe R s"
  shows "safe R (flowCore (onTurnEnd E m s))"
  using assms
  by (auto simp: onTurnEnd_def flowCore_def admissible_def Let_def split_beta
      intro!: safe_emit safe_onSuccessContinueWith safe_speechContextMessage safe_fetchConnection
        safe_cancelRecognitionLocal safe_sendTelemetryData)

lemma safe_handleMessage:
  assumes "nonEmptyJson E" "safe R s"
  shows "safe R (flowCore (handleMessage E m s))"
proof -
  have "safe R (flowCore (Next (emit (processTypeSpecificMessages m) s)))"
    using assms(2) by (auto simp: flowCore_def admissible_def intro!: safe_emit)
  moreover have "safe R (flowCore (Next (s\<lparr>privMustReportEndOfStream := True\<rparr>)))"
    "safe R (flowCore (Next s))"
    using assms(2) by (simp_all add: flowCore_def)
  ultimately show ?thesis
    using safe_onTurnEnd [OF assms] safe_onSpeechEndDetected [OF assms(2)]
      safe_onSpeechStartDetected [OF assms(2)]
    by (simp add: handleMessage_def Let_def)
qed

lemma safe_onMessage:
  assumes "nonEmptyJson E" "safe R s"
  shows "safe R (onMessage E v s)"
proof (cases v)
  case (Message message)
  show ?thesis
  proof (cases message)
    case None
    then show ?thesis
      using Message assms by (simp add: onMessage_def safe_receiveMessage)
  next
    case (Some m)
    have "safe R (flowCore (handleMessage E m s))" by (rule safe_handleMessage [OF assms])
    then show ?thesis
      using Message Some assms
      by (auto simp: onMessage_def flowCore_def safe_receiveMessage split: flow.splits)
  qed
qed (use assms(2) in \<open>simp_all add: onMessage_def\<close>)

text \<open>The upstream pump.\<close>

lemma safe_resolvePump: "safe R s \<Longrightarrow> safe R (snd (resolvePump pu s))"
  by (auto simp: resolvePump_def admissible_def intro!: safe_emit)

lemma safe_rejectPump:
  assumes "nonEmptyJson E" "safe R s"
  shows "safe R (snd (rejectPump E e pu s))"
  using assms
  by (auto simp: rejectPump_def admissible_def intro!: safe_emit safe_cancelRecognitionLocal)

lemma safe_readAndUploadCycle:
  assumes "nonEmptyJson E" "safe R s"
  shows "safe R (snd (readAndUploadCycle E pu s))"
proof -
  note f = safe_fetchConnection [OF assms]
  show ?thesis
    using assms(2) f safe_configured [OF f]
    by (auto simp: readAndUploadCycle_def split_beta
        intro!: safe_audioStreamNodeRead safe_rejectPump [OF assms(1)]
        split: option.splits outcome.splits)
qed

lemma safe_sendAudio:
  assumes "nonEmptyJson E" "safe R s"
  shows "safe R (snd (sendAudio E s))"
  unfolding sendAudio_def by (rule safe_readAndUploadCycle [OF assms])

lemma safe_onAudioChunk:
  assumes "safe R s" "sendResolved ''speech.context'' c (trace s)"
  shows "safe R (snd (onAudioChunk E pu c buffer isEnd s))"
  using assms
  by (auto simp: onAudioChunk_def Let_def split_beta cbOk_def admissible_def inOrder_def
      intro!: safe_resolvePump safe_await safe_emit safe_send)

lemma safe_onAudioError:
  assumes "nonEmptyJson E" "safe R s"
  shows "safe R (snd (onAudioError E pu e s))"
  using assms by (simp add: onAudioError_def safe_resolvePump safe_rejectPump)

lemma safe_onTimer:
  assumes "nonEmptyJson E" "safe R s"
  shows "safe R (snd (onTimer E pu u s))"
  using assms
  by (auto simp: onTimer_def cbOk_def intro!: safe_await safe_readAndUploadCycle split: option.splits)

text \<open>Completion of the promises and of the futures.\<close>

lemma safe_recognizeStart:
  assumes "nonEmptyJson E" "safe R s"
  shows "safe R (recognizeStart E s)"
  using assms
  by (auto simp: recognizeStart_def Let_def admissible_def
      intro!: safe_sendAudio safe_receiveMessage safe_emit)

lemma safe_recognizeFailed:
  assumes "nonEmptyJson E" "safe R s"
  shows "safe R (recognizeFailed E e s)"
  using assms by (simp add: recognizeFailed_def safe_cancelRecognitionLocal)

lemma safe_runConfigured:
  assumes "nonEmptyJson E" "safe R s" "\<And>c. v = Conn c \<Longrightarrow> sendResolved ''speech.context'' c (trace s)"
  shows "safe R (runConfigured E v s k)"
proof (cases v)
  case (Conn c)
  then have c: "sendResolved ''speech.context'' c (trace s)" by (rule assms(3))
  show ?thesis
    using Conn assms(1,2) c
    by (cases k)
      (simp_all add: runConfigured_def safe_recognizeStart safe_connectionRead safe_audioStreamNodeRead
        safe_telemetryMessage safe_speechContextMessage safe_finalAudioMessage safe_connectionDispose)
next
  case (Failed e)
  show ?thesis
    using Failed assms(1,2)
    by (cases k) (simp_all add: runConfigured_def safe_recognizeFailed safe_rejectPump)
qed (use assms(2) in \<open>simp_all add: runConfigured_def\<close>)

lemma safe_completeConfigured:
  assumes "nonEmptyJson E" "safe R s" "\<And>c. v = Conn c \<Longrightarrow> sendResolved ''speech.context'' c (trace s)"
  shows "safe R (completeConfigured E q v s)"
proof -
  define R' where "R' = R \<union> (case v of Conn c \<Rightarrow> {(''speech.context'', c)} | _ \<Rightarrow> {})"
  define s1 where "s1 = snd (takeConfiguredWaiting q (settleConfigured q v s))"
  have "safe R s1"
    using safe_settleConfigured [OF assms(2,3), where q = q] by (simp add: s1_def takeConfiguredWaiting_def)
  moreover have "trace s1 = trace s" by (simp add: s1_def takeConfiguredWaiting_def settleConfigured_def)
  ultimately have "safe R' s1"
    unfolding R'_def using assms(3) by (intro safe_extend) (auto split: outcome.splits)
  then have "safe R' (foldl (runConfigured E v) s1 ks)" for ks
  proof (rule safe_foldl [rotated])
    fix t k
    assume t: "safe R' t"
    show "safe R' (runConfigured E v t k)"
    proof (rule safe_runConfigured [OF assms(1) t])
      fix c assume "v = Conn c"
      then have "(''speech.context'', c) \<in> R'" by (simp add: R'_def)
      then show "sendResolved ''speech.context'' c (trace t)" by (rule safe_R [OF t])
    qed
  qed
  then have "safe R (foldl (runConfigured E v) s1 ks)" for ks
    by (rule safe_weaken) (simp add: R'_def)
  then show ?thesis by (simp add: completeConfigured_def split_beta s1_def)
qed

lemma safe_completeConfigured_failed:
  assumes "nonEmptyJson E" "safe R s"
  shows "safe R (completeConfigured E q (Failed e) s)"
  by (rule safe_completeConfigured [OF assms]) simp

lemma safe_completeConnectionN:
  assumes "nonEmptyJson E"
  shows "safe R s \<Longrightarrow> safe R (completeConnectionN n E p v s)"
proof (induction n arbitrary: s p)
  case 0
  then show ?case by simp
next
  case (Suc n)
  define s1 where "s1 = snd (takeWaiting p (settle p v s))"
  have s1: "safe R s1" using Suc.prems by (simp add: s1_def takeWaiting_def)
  let ?g = "\<lambda>s k.
            case k of
              KConfigure q \<Rightarrow>
                (case v of
                   Conn c \<Rightarrow> configStep (resolveConfigured E) E q c s
                 | Failed error \<Rightarrow> completeConfigured E q (Failed error) s
                 | _ \<Rightarrow> s)
            | KDispose reason \<Rightarrow> (case v of Conn c \<Rightarrow> connectionDispose reason c s | _ \<Rightarrow> s)
            | KFollow p' \<Rightarrow> completeConnectionN n E p' v s
            | _ \<Rightarrow> s"
  have "safe R (foldl ?g s1 ks)" for ks
  proof (rule safe_foldl [OF _ s1])
    fix t k
    assume t: "safe R t"
    show "safe R (?g t k)"
      using t Suc.IH [OF t]
      by (cases k; cases v)
        (simp_all add: safe_configStep [OF assms] safe_completeConfigured_failed [OF assms]
          safe_connectionDispose)
  qed
  then show ?case by (simp add: split_beta s1_def)
qed

lemma safe_completeConnection:
  assumes "nonEmptyJson E" "safe R s"
  shows "safe R (completeConnection E p v s)"
  unfolding completeConnection_def by (rule safe_completeConnectionN [OF assms])

lemma safe_onAuth:
  assumes "nonEmptyJson E" "safe R s"
  shows "safe R (onAuth E p b v s)"
  using assms(2)
  by (cases v)
    (auto simp: onAuth_def Let_def split_beta cbOk_def admissible_def
      intro!: safe_completeConnection [OF assms(1)] safe_await safe_emit)

lemma safe_onOpen:
  assumes "nonEmptyJson E" "safe R s"
  shows "safe R (onOpen E p b c v s)"
  using assms(2) safe_connectImpl [OF assms(2), of True]
  by (cases v)
    (auto simp: onOpen_def Let_def split_beta
      intro!: safe_completeConnection [OF assms(1)] split: option.splits)

lemma safe_onConfigSent:
  assumes "nonEmptyJson E" "safe R s" "v = Sent \<Longrightarrow> sendResolved ''speech.config'' c (trace s)"
  shows "safe R (onConfigSent E q c v s)"
  using assms
  by (cases v) (auto simp: onConfigSent_def intro!: safe_contextStep safe_completeConfigured_failed)

lemma safe_onContextSent:
  assumes "nonEmptyJson E" "safe R s" "v = Sent \<Longrightarrow> sendResolved ''speech.context'' c (trace s)"
  shows "safe R (onContextSent E q c v s)"
  using assms
  by (cases v) (auto simp: onContextSent_def resolveConfigured_def intro!: safe_completeConfigured)

lemma safe_onAttach:
  assumes "nonEmptyJson E" "safe R s"
  shows "safe R (onAttach E v s)"
  using assms(2)
  by (cases v)
    (auto simp: onAttach_def Let_def split_beta
      intro!: safe_recognizeFailed [OF assms(1)] safe_recognizeStart [OF assms(1)]
        safe_configureConnection [OF assms(1)]
      split: option.splits outcome.splits)

lemma safe_onChunk:
  assumes "nonEmptyJson E" "safe R s" "sendResolved ''speech.context'' c (trace s)"
  shows "safe R (onChunk E pu c v s)"
  using assms
  by (cases v) (auto simp: onChunk_def intro!: safe_onAudioChunk safe_onAudioError)

lemma safe_runCallback:
  assumes "nonEmptyJson E" "safe R s" "needs v k \<subseteq> R"
  shows "safe R (runCallback E v s k)"
proof (cases k)
  case (KConfigSent q c)
  have "v = Sent \<Longrightarrow> sendResolved ''speech.config'' c (trace s)"
    using assms(3) KConfigSent by (intro safe_R [OF assms(2)]) (simp add: needs_def)
  then show ?thesis using KConfigSent assms(1,2) by (simp add: runCallback_def safe_onConfigSent)
next
  case (KContextSent q c)
  have "v = Sent \<Longrightarrow> sendResolved ''speech.context'' c (trace s)"
    using assms(3) KContextSent by (intro safe_R [OF assms(2)]) (simp add: needs_def)
  then show ?thesis using KContextSent assms(1,2) by (simp add: runCallback_def safe_onContextSent)
next
  case (KChunk pu c)
  have "sendResolved ''speech.context'' c (trace s)"
    using assms(3) KChunk by (intro safe_R [OF assms(2)]) (simp add: needs_def)
  then show ?thesis using KChunk assms(1,2) by (simp add: runCallback_def safe_onChunk)
qed (use assms(1,2) in \<open>simp_all add: runCallback_def safe_onAttach safe_onAuth safe_onOpen
    safe_onMessage safe_onTimer safe_readAndUploadCycle\<close>)

lemma safe_complete:
  assumes "nonEmptyJson E" "safe R s"
  shows "safe R (complete E f v s)"
proof (cases "f < nextFuture s \<and> completed s f = None")
  case False
  then show ?thesis using assms(2) by (auto simp: complete_def)
next
  case True
  define s1 where "s1 = (if list_ex (isSend f) (trace s) then emit (SendDone f (v = Sent)) s else s)"
  define ks where "ks = map snd (filter (\<lambda>w. fst w = f) (callbacks s))"
  define s3 where "s3 = s1\<lparr>completed := (completed s1)(f \<mapsto> v), callbacks := filter (\<lambda>w. fst w \<noteq> f) (callbacks s1)\<rparr>"
  define R' where "R' = R \<union> \<Union> (needs v ` set ks)"
  have cb: "callbacks s1 = callbacks s" by (simp add: s1_def emit_def)
  have s1: "safe R s1" using assms(2) by (auto simp: s1_def admissible_def intro!: safe_emit)
  have "safe R ((s1\<lparr>completed := (completed s1)(f \<mapsto> v)\<rparr>)
          \<lparr>callbacks := filter (\<lambda>w. fst w \<noteq> f) (callbacks (s1\<lparr>completed := (completed s1)(f \<mapsto> v)\<rparr>))\<rparr>)"
    by (rule safe_filter) (simp add: s1)
  then have s3: "safe R s3" by (simp add: s3_def)
  have tr3: "trace s3 = trace s1" by (simp add: s3_def)
  have ok: "sendResolved p c (trace s1)" if "(p, c) \<in> needs v k" "k \<in> set ks" for p c k
  proof -
    from that(2) have fk: "(f, k) \<in> set (callbacks s)" by (auto simp: ks_def)
    with assms(2) have cbk: "cbOk (trace s) (f, k)" by (auto simp: safe_def list_all_iff)
    show ?thesis
    proof (cases k)
      case (KChunk pu c')
      then show ?thesis
        using that(1) cbk by (auto simp: needs_def cbOk_def s1_def sendResolved_append)
    next
      case (KConfigSent q c')
      then have h: "handed ''speech.config'' f c' (trace s)" using cbk by (simp add: cbOk_def)
      then show ?thesis
        using that(1) KConfigSent handed_isSend [OF h] sendResolved_done [OF h]
        by (auto simp: needs_def s1_def split: if_splits)
    next
      case (KContextSent q c')
      then have h: "handed ''speech.context'' f c' (trace s)" using cbk by (simp add: cbOk_def)
      then show ?thesis
        using that(1) KContextSent handed_isSend [OF h] sendResolved_done [OF h]
        by (auto simp: needs_def s1_def split: if_splits)
    qed (use that(1) in \<open>simp_all add: needs_def\<close>)
  qed
  have "safe R' s3"
    unfolding R'_def using s3 ok tr3 by (intro safe_extend) auto
  then have "safe R' (foldl (runCallback E v) s3 ks)"
  proof (rule safe_foldl [rotated])
    fix t k
    assume "safe R' t" "k \<in> set ks"
    then show "safe R' (runCallback E v t k)"
      by (intro safe_runCallback [OF assms(1)]) (auto simp: R'_def)
  qed
  then have "safe R (foldl (runCallback E v) s3 ks)"
    by (rule safe_weaken) (simp add: R'_def)
  moreover have "complete E f v s = foldl (runCallback E v) s3 ks"
    using True unfolding s3_def ks_def s1_def by (simp add: complete_def Let_def emit_def)
  ultimately show ?thesis by simp
qed

text \<open>The public operations and the runs.\<close>

lemma safe_recognize: "safe R s \<Longrightarrow> safe R (recognize E m s)"
  by (auto simp: recognize_def Let_def split_beta cbOk_def admissible_def
      intro!: safe_await safe_emit safe_connectImpl)

lemma safe_stopRecognizing:
  assumes "nonEmptyJson E" "safe R s"
  shows "safe R (stopRecognizing E s)"
  using assms
  by (auto simp: stopRecognizing_def sendFinalAudio_def Let_def split_beta admissible_def
      intro!: safe_onSuccessContinueWith safe_finalAudioMessage safe_fetchConnection safe_emit
        safe_sendTelemetryData)

lemma safe_connect: "safe R s \<Longrightarrow> safe R (connect s)"
  by (simp add: connect_def safe_connectImpl)

lemma safe_disconnect:
  assumes "nonEmptyJson E" "safe R s" "disconnect E s = Inr s'"
  shows "safe R s'"
  using assms(3) safe_cancelRecognitionLocal [OF assms(1,2), of Error NoError "Some ''Disconnecting''"]
  by (auto simp: disconnect_def Let_def safe_connectionDispose split: option.splits outcome.splits)

lemma safe_dispose: "safe R s \<Longrightarrow> safe R (dispose r s)"
  by (auto simp: dispose_def Let_def intro!: safe_onSuccessContinueWith safe_connectionDispose
      split: option.splits)

lemma safe_step:
  assumes "nonEmptyJson E" "safe R s" "step E ev s = Inr s'"
  shows "safe R s'"
  using assms
  by (cases ev)
    (auto simp: step_def safe_recognize safe_stopRecognizing safe_connect safe_dispose safe_complete
      intro: safe_disconnect)

lemma safe_run:
  assumes "nonEmptyJson E"
  shows "safe R s \<Longrightarrow> run E evs s = Inr s' \<Longrightarrow> safe R s'"
proof (induction evs arbitrary: s)
  case Nil
  then show ?case by simp
next
  case (Cons ev evs)
  then show ?case
    using safe_step [OF assms, of R s ev]
    by (cases "step E ev s") auto
qed

lemma safe_new: "safe {} newServiceRecognizerBase"
  by (simp add: safe_def newServiceRecognizerBase_def)

lemma inOrder_sentOn:
  assumes "inOrder pre c m"
  shows "sentOn c pre \<or> messageType m = Text \<and> path m = ''speech.config''"
proof -
  have "sentOn c pre" if "sendResolved p c pre" for p
  proof -
    from that obtain f m where "Send f c m \<in> set pre" by (auto simp: sendResolved_iff handed_iff)
    then have "\<exists>a\<in>set pre. isSendOn c a" by (intro bexI [of _ "Send f c m"]) (simp_all add: isSendOn_def)
    then show ?thesis by (simp add: sentOn_def list_ex_iff)
  qed
  then show ?thesis using assms by (auto simp: inOrder_def split: if_splits)
qed

lemma stopped_returns:
  "(case run exampleCollaborators stopped newServiceRecognizerBase of Inr s \<Rightarrow> True | Inl x \<Rightarrow> False)"
  by (simp add: example_defs core_defs session_defs cong: run_cong)

lemma stopped_trace:
  "trace (after exampleCollaborators stopped) =
     [Fetch (createNoDashGuid 4), Attach, Create (createNoDashGuid 5), Open (createNoDashGuid 5),
      Send 3 (createNoDashGuid 5)
        (SpeechConnectionMessage Text ''speech.config'' (createNoDashGuid 3) (Some ''application/json'')
           (TextBody ''{context:{system:{version:1.7.0},os:{platform:Browser}}}'')),
      SendDone 3 True,
      Send 4 (createNoDashGuid 5)
        (SpeechConnectionMessage Text ''speech.context'' (createNoDashGuid 3) (Some ''application/json'')
           (TextBody ''{}'')),
      SendDone 4 True,
      sessionStarted (createNoDashGuid 2), Read (createNoDashGuid 5), AudioRead,
      Send 7 (createNoDashGuid 5)
        (SpeechConnectionMessage Binary ''audio'' (createNoDashGuid 3) None (BinaryBody (replicate 3200 0))),
      SetTimeout 0,
      Send 9 (createNoDashGuid 5)
        (SpeechConnectionMessage Text ''telemetry'' (createNoDashGuid 3) (Some ''application/json'')
           (TextBody ''PreConnectionStartAuthCompletedAudioSourceAttachCompletedPreConnectionStartConnectionEstablishCompleted'')),
      TurnOff,
      Send 10 (createNoDashGuid 5)
        (SpeechConnectionMessage Binary ''audio'' (createNoDashGuid 3) None NullBody)]"
  by (simp add: example_defs core_defs session_defs cong: run_cong)

text \<open>
  C2, as the code has it, on every run: for a serialized configuration and a speech context
  that are not empty, whatever the application calls and whatever the collaborators answer,
  every message the core hands to the transport on a connection is in order behind the log
  that precedes it.  It is a \<^verbatim>\<open>speech.config\<close>; or it is a \<^verbatim>\<open>speech.context\<close> and the send
  future of a \<^verbatim>\<open>speech.config\<close> on that connection has resolved before; or it is anything
  else, a Binary audio frame in particular, and the send future of a \<^verbatim>\<open>speech.context\<close> on
  that connection has resolved before.  So the first message on a connection is a
  \<^verbatim>\<open>speech.config\<close>.  The \<^verbatim>\<open>speech.context\<close> that has resolved need not be the one of the
  current request id: the one the handling of \<^verbatim>\<open>turn.end\<close> sends for the next turn is not
  waited for.
\<close>

theorem config_then_context_then_audio:
  assumes "nonEmptyJson E"
    and "run E evs newServiceRecognizerBase = Inr s"
    and "trace s = pre @ Send f c m # post"
  shows "inOrder pre c m \<and> (sentOn c pre \<or> messageType m = Text \<and> path m = ''speech.config'')"
proof -
  have "ordered [] (trace s)" using safe_run [OF assms(1) safe_new assms(2)] by (rule safe_ordered)
  then have "admissible pre (Send f c m)" using ordered_mid [of "[]" pre] assms(3) by simp
  then have "inOrder pre c m" by (simp add: admissible_def)
  then show ?thesis using inOrder_sentOn by blast
qed

theorem config_then_context_then_audio_witness:
  "nonEmptyJson exampleCollaborators \<and>
   run exampleCollaborators stopped newServiceRecognizerBase = Inr (after exampleCollaborators stopped) \<and>
   trace (after exampleCollaborators stopped) =
     [Fetch (createNoDashGuid 4), Attach, Create (createNoDashGuid 5), Open (createNoDashGuid 5),
      Send 3 (createNoDashGuid 5)
        (SpeechConnectionMessage Text ''speech.config'' (createNoDashGuid 3) (Some ''application/json'')
           (TextBody ''{context:{system:{version:1.7.0},os:{platform:Browser}}}'')),
      SendDone 3 True,
      Send 4 (createNoDashGuid 5)
        (SpeechConnectionMessage Text ''speech.context'' (createNoDashGuid 3) (Some ''application/json'')
           (TextBody ''{}'')),
      SendDone 4 True,
      sessionStarted (createNoDashGuid 2), Read (createNoDashGuid 5), AudioRead] @
     Send 7 (createNoDashGuid 5)
       (SpeechConnectionMessage Binary ''audio'' (createNoDashGuid 3) None (BinaryBody (replicate 3200 0))) #
     [SetTimeout 0,
      Send 9 (createNoDashGuid 5)
        (SpeechConnectionMessage Text ''telemetry'' (createNoDashGuid 3) (Some ''application/json'')
           (TextBody ''PreConnectionStartAuthCompletedAudioSourceAttachCompletedPreConnectionStartConnectionEstablishCompleted'')),
      TurnOff,
      Send 10 (createNoDashGuid 5)
        (SpeechConnectionMessage Binary ''audio'' (createNoDashGuid 3) None NullBody)] \<and>
   inOrder
     [Fetch (createNoDashGuid 4), Attach, Create (createNoDashGuid 5), Open (createNoDashGuid 5),
      Send 3 (createNoDashGuid 5)
        (SpeechConnectionMessage Text ''speech.config'' (createNoDashGuid 3) (Some ''application/json'')
           (TextBody ''{context:{system:{version:1.7.0},os:{platform:Browser}}}'')),
      SendDone 3 True,
      Send 4 (createNoDashGuid 5)
        (SpeechConnectionMessage Text ''speech.context'' (createNoDashGuid 3) (Some ''application/json'')
           (TextBody ''{}'')),
      SendDone 4 True,
      sessionStarted (createNoDashGuid 2), Read (createNoDashGuid 5), AudioRead]
     (createNoDashGuid 5)
     (SpeechConnectionMessage Binary ''audio'' (createNoDashGuid 3) None (BinaryBody (replicate 3200 0)))"
proof -
  have h1: "nonEmptyJson exampleCollaborators"
    by (simp add: nonEmptyJson_def exampleCollaborators_def)
  have h2: "run exampleCollaborators stopped newServiceRecognizerBase = Inr (after exampleCollaborators stopped)"
    using stopped_returns by (simp add: after_def split: sum.splits)
  have h3: "trace (after exampleCollaborators stopped) =
     [Fetch (createNoDashGuid 4), Attach, Create (createNoDashGuid 5), Open (createNoDashGuid 5),
      Send 3 (createNoDashGuid 5)
        (SpeechConnectionMessage Text ''speech.config'' (createNoDashGuid 3) (Some ''application/json'')
           (TextBody ''{context:{system:{version:1.7.0},os:{platform:Browser}}}'')),
      SendDone 3 True,
      Send 4 (createNoDashGuid 5)
        (SpeechConnectionMessage Text ''speech.context'' (createNoDashGuid 3) (Some ''application/json'')
           (TextBody ''{}'')),
      SendDone 4 True,
      sessionStarted (createNoDashGuid 2), Read (createNoDashGuid 5), AudioRead] @
     Send 7 (createNoDashGuid 5)
       (SpeechConnectionMessage Binary ''audio'' (createNoDashGuid 3) None (BinaryBody (replicate 3200 0))) #
     [SetTimeout 0,
      Send 9 (createNoDashGuid 5)
        (SpeechConnectionMessage Text ''telemetry'' (createNoDashGuid 3) (Some ''application/json'')
           (TextBody ''PreConnectionStartAuthCompletedAudioSourceAttachCompletedPreConnectionStartConnectionEstablishCompleted'')),
      TurnOff,
      Send 10 (createNoDashGuid 5)
        (SpeechConnectionMessage Binary ''audio'' (createNoDashGuid 3) None NullBody)]"
    unfolding stopped_trace by simp
  from config_then_context_then_audio [OF h1 h2 h3] h1 h2 h3 show ?thesis by blast
qed

end
